theory Spec2Isabelle
  imports Complex_Main "HOL-Library.Word"
begin

section \<open>Python strings\<close>

text \<open>
  Texts are lists of characters. \<open>isspace\<close> is Python's \<open>str.isspace\<close> on the code
  points below 256: tab to carriage return, the four separators 0x1C to 0x1F, the space,
  NEL (0x85) and the no-break space (0xA0).
\<close>

definition isspace :: "char \<Rightarrow> bool" where
  "isspace c = (let n = (of_char c :: nat) in
     (9 \<le> n \<and> n \<le> 13) \<or> (28 \<le> n \<and> n \<le> 32) \<or> n = 133 \<or> n = 160)"

text \<open>
  \<open>text.split()\<close> without a separator: runs of whitespace separate the words and no
  empty word is returned. \<open>cur\<close> is the word being read.
\<close>

fun split_from :: "string \<Rightarrow> string \<Rightarrow> string list" where
  "split_from cur [] = (if cur = [] then [] else [cur])"
| "split_from cur (c # cs) =
     (if isspace c then (if cur = [] then split_from [] cs else cur # split_from [] cs)
      else split_from (cur @ [c]) cs)"

definition str_split :: "string \<Rightarrow> string list" where
  "str_split text = split_from [] text"

text \<open>\<open>sep.join(xs)\<close>.\<close>

fun str_join :: "string \<Rightarrow> string list \<Rightarrow> string" where
  "str_join sep [] = []"
| "str_join sep [x] = x"
| "str_join sep (x # y # ys) = x @ sep @ str_join sep (y # ys)"

text \<open>\<open>s.strip()\<close>: leading and trailing whitespace removed.\<close>

definition str_strip :: "string \<Rightarrow> string" where
  "str_strip s = rev (dropWhile isspace (rev (dropWhile isspace s)))"

text \<open>\<open>s.replace(c, new)\<close> for a pattern of one character, as in \<open>replace('#', ...)\<close>.\<close>

definition str_replace :: "string \<Rightarrow> char \<Rightarrow> string \<Rightarrow> string" where
  "str_replace s c new = concat (map (\<lambda>x. if x = c then new else [x]) s)"

text \<open>\<open>str(n)\<close> for an integer: decimal digits, with a minus sign when negative.\<close>

fun str_nat :: "nat \<Rightarrow> string" where
  "str_nat n =
     (if n < 10 then [char_of (48 + n)]
      else str_nat (n div 10) @ [char_of (48 + n mod 10)])"

declare str_nat.simps [simp del]

definition str_int :: "int \<Rightarrow> string" where
  "str_int i = (if i < 0 then CHR ''-'' # str_nat (nat (- i)) else str_nat (nat i))"

text \<open>\<open>os.path.join(a, b)\<close> with the POSIX separator.\<close>

definition path_join :: "string \<Rightarrow> string \<Rightarrow> string" where
  "path_join a b =
     (if b \<noteq> [] \<and> hd b = CHR ''/'' then b
      else if a = [] \<or> last a = CHR ''/'' then a @ b
      else a @ ''/'' @ b)"

section \<open>Python floats\<close>

text \<open>
  A float is the real number it denotes. \<open>fl prec x\<close> rounds \<open>x\<close> to the nearest number
  with a significand of \<open>prec\<close> bits, ties to even: \<open>fl 53\<close> is the rounding of every
  double operation of Python, \<open>fl 24\<close> that of a C \<open>float\<close>. Exponent range is not
  modelled (no overflow, no subnormals); the sliders keep every value far inside it.
\<close>

fun bit_length :: "nat \<Rightarrow> nat" where
  "bit_length n = (if n = 0 then 0 else Suc (bit_length (n div 2)))"

declare bit_length.simps [simp del]

definition pow2 :: "int \<Rightarrow> real" where
  "pow2 e = (if 0 \<le> e then 2 ^ nat e else 1 / 2 ^ nat (- e))"

definition round_half_even :: "real \<Rightarrow> int" where
  "round_half_even x =
     (let f = \<lfloor>x\<rfloor>; d = x - of_int f
      in if d < 1 / 2 then f
         else if 1 / 2 < d then f + 1
         else if even f then f else f + 1)"

definition float_exponent :: "real \<Rightarrow> int" where
  "float_exponent x =
     (if 1 \<le> \<bar>x\<bar> then int (bit_length (nat \<lfloor>\<bar>x\<bar>\<rfloor>)) - 1
      else - int (bit_length (nat (\<lceil>1 / \<bar>x\<bar>\<rceil> - 1))))"

definition fl :: "nat \<Rightarrow> real \<Rightarrow> real" where
  "fl prec x =
     (if x = 0 then 0
      else (let e = float_exponent x - int prec + 1
            in of_int (round_half_even (x / pow2 e)) * pow2 e))"

text \<open>\<open>int(x)\<close> of a float: truncation towards zero.\<close>

definition py_int :: "real \<Rightarrow> int" where
  "py_int x = (if 0 \<le> x then \<lfloor>x\<rfloor> else \<lceil>x\<rceil>)"

text \<open>\<open>a / b\<close> on two integers (true division) and \<open>n * x\<close> of an integer and a float.\<close>

definition py_truediv :: "int \<Rightarrow> int \<Rightarrow> real" where
  "py_truediv a b = fl 53 (of_int a / of_int b)"

definition py_int_times_float :: "int \<Rightarrow> real \<Rightarrow> real" where
  "py_int_times_float n x = fl 53 (fl 53 (of_int n) * x)"

section \<open>Images\<close>

type_synonym pixel = "8 word \<times> 8 word \<times> 8 word \<times> 8 word"

record image =
  isize :: "nat \<times> nat"
  pixels :: "pixel list"

datatype py_exception = PyException string

fun message :: "py_exception \<Rightarrow> string" where
  "message (PyException s) = s"

text \<open>\<open>Image.new("RGBA", (width, height), color)\<close>.\<close>

definition Image_new :: "nat \<times> nat \<Rightarrow> pixel \<Rightarrow> image" where
  "Image_new sz color = \<lparr>isize = sz, pixels = replicate (fst sz * snd sz) color\<rparr>"

text \<open>
  \<open>Image.blend(im1, im2, alpha)\<close> on one band value. The factor reaches the C code as
  a \<open>float\<close>; 0 and 1 copy an operand, a factor in between interpolates in \<open>float\<close>
  arithmetic and truncates, any other factor extrapolates and clips.
\<close>

definition blend_value :: "real \<Rightarrow> 8 word \<Rightarrow> 8 word \<Rightarrow> 8 word" where
  "blend_value alpha in1 in2 =
     (if alpha = 0 then in1
      else if alpha = 1 then in2
      else (let temp = fl 24 (of_int (uint in1)
                  + fl 24 (alpha * of_int (uint in2 - uint in1)))
            in if 0 \<le> alpha \<and> alpha \<le> 1 then of_int (py_int temp)
               else if temp \<le> 0 then 0
               else if 255 \<le> temp then 255
               else of_int (py_int temp)))"

text \<open>
  \<open>ImageEnhance.Brightness(band).enhance(factor)\<close>: the band blended with an all-zero
  band of the same size.
\<close>

definition Brightness_enhance :: "real \<Rightarrow> 8 word \<Rightarrow> 8 word" where
  "Brightness_enhance factor v = blend_value (fl 24 factor) 0 v"

text \<open>
  \<open>Image.alpha_composite(dst, src)\<close> on one pixel: a fully transparent source pixel
  leaves the destination pixel as it is, any other is blended in integer arithmetic with
  seven extra bits of precision.
\<close>

definition shift_for_div255 :: "nat \<Rightarrow> nat" where
  "shift_for_div255 a = (a div 256 + a) div 256"

definition composite_pixel :: "pixel \<Rightarrow> pixel \<Rightarrow> pixel" where
  "composite_pixel dst src =
     (case dst of (dr, dg, db, da) \<Rightarrow> case src of (sr, sg, sb, sa) \<Rightarrow>
        if sa = 0 then dst
        else (let blend = unat da * (255 - unat sa);
                  outa255 = unat sa * 255 + blend;
                  coef1 = unat sa * 255 * 255 * 128 div outa255;
                  coef2 = 255 * 128 - coef1;
                  tmpr = unat sr * coef1 + unat dr * coef2;
                  tmpg = unat sg * coef1 + unat dg * coef2;
                  tmpb = unat sb * coef1 + unat db * coef2
              in (of_nat (shift_for_div255 (tmpr + 128 * 128) div 128),
                  of_nat (shift_for_div255 (tmpg + 128 * 128) div 128),
                  of_nat (shift_for_div255 (tmpb + 128 * 128) div 128),
                  of_nat (shift_for_div255 (outa255 + 128)))))"

definition alpha_composite :: "image \<Rightarrow> image \<Rightarrow> py_exception + image" where
  "alpha_composite im1 im2 =
     (if isize im1 \<noteq> isize im2 then Inl (PyException ''images do not match'')
      else Inr \<lparr>isize = isize im1,
                pixels = map2 composite_pixel (pixels im1) (pixels im2)\<rparr>)"

text \<open>
  The operations of the imaging library that the program calls and whose results depend
  on font files and resampling filters: they are parameters of the model.
\<close>

record 'font pil =
  textbbox :: "'font \<Rightarrow> string \<Rightarrow> int \<times> int \<times> int \<times> int"
  draw_text :: "image \<Rightarrow> int \<times> int \<Rightarrow> string \<Rightarrow> 'font \<Rightarrow> pixel \<Rightarrow> image"
  truetype :: "string \<Rightarrow> int \<Rightarrow> py_exception + 'font"
  load_default :: "'font"
  resize :: "image \<Rightarrow> nat \<times> nat \<Rightarrow> image"
  fit :: "image \<Rightarrow> nat \<times> nat \<Rightarrow> image"

text \<open>\<open>resize\<close> and \<open>ImageOps.fit\<close> return an image of the size asked for.\<close>

definition well_sized :: "image \<Rightarrow> nat \<times> nat \<Rightarrow> bool" where
  "well_sized im sz = (isize im = sz \<and> length (pixels im) = fst sz * snd sz)"

definition pil_sized :: "'font pil \<Rightarrow> bool" where
  "pil_sized lib = (\<forall>im sz. well_sized (resize lib im sz) sz \<and> well_sized (fit lib im sz) sz)"

section \<open>The application state\<close>

text \<open>
  The fields of \<open>self\<close> that rendering and saving read, with the values of the input
  widgets (\<open>course_input.text()\<close>, \<open>font_size_slider.value()\<close> and so on) in place of
  the widgets. \<open>stdout\<close> is the standard output of the process, to which \<open>print\<close>
  appends; it is not a field of \<open>self\<close>.
\<close>

record 'font app_state =
  background_image :: "image option"
  background_color :: "8 word \<times> 8 word \<times> 8 word"
  text_color :: "8 word \<times> 8 word \<times> 8 word"
  current_pattern :: "image option"
  pattern_opacity :: int
  custom_fonts :: "string \<rightharpoonup> string"
  pil_fonts :: "string \<rightharpoonup> 'font"
  text_margins :: int
  line_spacing_factor :: real
  course_input :: string
  title_input :: string
  start_number :: int
  batch_count :: int
  font_combo :: string
  font_size_slider :: int
  stdout :: "string list"

definition update_line_spacing :: "'font app_state \<Rightarrow> int \<Rightarrow> 'font app_state" where
  "update_line_spacing st v = st\<lparr>line_spacing_factor := fl 53 (of_int v / 100)\<rparr>"

section \<open>Font lookup\<close>

text \<open>
  \<open>get_pil_font\<close>: a cached font is returned as it is. Otherwise the font file of a
  custom font, or the name itself, is loaded; every exception of the load is caught, a
  line is printed and the default font is cached and returned in its place.
\<close>

definition get_pil_font ::
  "'font pil \<Rightarrow> 'font app_state \<Rightarrow> string \<Rightarrow> int \<Rightarrow> 'font \<times> 'font app_state" where
  "get_pil_font lib st font_name sz =
     (let key = font_name @ ''_'' @ str_int sz
      in case pil_fonts st key of
           Some font \<Rightarrow> (font, st)
         | None \<Rightarrow>
            (case (case custom_fonts st font_name of
                     Some font_path \<Rightarrow> truetype lib font_path sz
                   | None \<Rightarrow> truetype lib font_name sz) of
               Inr font \<Rightarrow> (font, st\<lparr>pil_fonts := (pil_fonts st)(key \<mapsto> font)\<rparr>)
             | Inl e \<Rightarrow>
                 (load_default lib,
                  st\<lparr>pil_fonts := (pil_fonts st)(key \<mapsto> load_default lib),
                     stdout := stdout st
                       @ [''Error loading font '' @ font_name @ '': '' @ message e]\<rparr>)))"

section \<open>Word wrap\<close>

definition text_width :: "'font pil \<Rightarrow> 'font \<Rightarrow> string \<Rightarrow> int" where
  "text_width lib font s = (case textbbox lib font s of (left, _, right, _) \<Rightarrow> right - left)"

text \<open>
  The body of the loop of \<open>wrap_text\<close>, on the pair of the lines committed so far and the
  words of the current line.
\<close>

definition wrap_step ::
  "'font pil \<Rightarrow> 'font \<Rightarrow> int \<Rightarrow> string list \<times> string list \<Rightarrow> string
     \<Rightarrow> string list \<times> string list" where
  "wrap_step lib font max_width acc word =
     (case acc of (lines, current_line) \<Rightarrow>
        (let test_line = current_line @ [word];
             test_text = str_join '' '' test_line
         in if text_width lib font test_text > max_width \<and> current_line \<noteq> []
            then (lines @ [str_join '' '' current_line], [word])
            else (lines, test_line)))"

definition wrap_text :: "'font pil \<Rightarrow> string \<Rightarrow> 'font \<Rightarrow> int \<Rightarrow> string list" where
  "wrap_text lib text font max_width =
     (case foldl (wrap_step lib font max_width) ([], []) (str_split text) of
        (lines, current_line) \<Rightarrow>
          if current_line \<noteq> [] then lines @ [str_join '' '' current_line] else lines)"

section \<open>Rendering one thumbnail\<close>

definition apply_opacity :: "int \<Rightarrow> image \<Rightarrow> image" where
  "apply_opacity opacity pattern =
     (if opacity < 100
      then pattern\<lparr>pixels :=
             map (\<lambda>(r, g, b, a). (r, g, b, Brightness_enhance (py_truediv opacity 100) a))
               (pixels pattern)\<rparr>
      else pattern)"

definition line_spacing_of :: "int \<Rightarrow> real \<Rightarrow> int" where
  "line_spacing_of font_size factor = py_int (py_int_times_float font_size factor)"

definition text_height_of :: "nat \<Rightarrow> int \<Rightarrow> int \<Rightarrow> int" where
  "text_height_of n font_size line_spacing = int n * (font_size + line_spacing) - line_spacing"

text \<open>
  The body of the drawing loop, on the pair of the canvas and \<open>y_position\<close>.
\<close>

definition draw_line ::
  "'font pil \<Rightarrow> 'font \<Rightarrow> pixel \<Rightarrow> int \<Rightarrow> int \<Rightarrow> int \<Rightarrow> image \<times> int \<Rightarrow> string
     \<Rightarrow> image \<times> int" where
  "draw_line lib font color width font_size line_spacing acc line =
     (case acc of (img, y_position) \<Rightarrow>
        (let line_width = text_width lib font line;
             x_position = (width - line_width) div 2
         in (draw_text lib img (x_position, y_position) line font color,
             y_position + font_size + line_spacing)))"

definition title_of :: "'font app_state \<Rightarrow> int \<Rightarrow> string" where
  "title_of st number = str_replace (title_input st) CHR ''#'' (str_int number)"

definition filename_title_of :: "'font app_state \<Rightarrow> int \<Rightarrow> string" where
  "filename_title_of st number =
     (let title = title_of st number;
          course_name = str_strip (course_input st)
      in if course_name \<noteq> [] then course_name @ '' - '' @ title else title)"

definition base_image :: "'font pil \<Rightarrow> 'font app_state \<Rightarrow> nat \<times> nat \<Rightarrow> image" where
  "base_image lib st sz =
     (case background_image st of
        Some bg \<Rightarrow> fit lib bg sz
      | None \<Rightarrow> (case background_color st of (r, g, b) \<Rightarrow> Image_new sz (r, g, b, 255)))"

definition apply_overlay ::
  "'font pil \<Rightarrow> 'font app_state \<Rightarrow> nat \<times> nat \<Rightarrow> image \<Rightarrow> py_exception + image" where
  "apply_overlay lib st sz img =
     (case current_pattern st of
        None \<Rightarrow> Inr img
      | Some p \<Rightarrow> alpha_composite img (apply_opacity (pattern_opacity st) (resize lib p sz)))"

definition generate_thumbnail ::
  "'font pil \<Rightarrow> 'font app_state \<Rightarrow> int \<Rightarrow> nat \<Rightarrow> nat
     \<Rightarrow> py_exception + ((image \<times> string) \<times> 'font app_state)" where
  "generate_thumbnail lib st number width height =
     (case apply_overlay lib st (width, height) (base_image lib st (width, height)) of
        Inl e \<Rightarrow> Inl e
      | Inr img \<Rightarrow>
         (let display_title = title_of st number;
              filename_title = filename_title_of st number;
              font_name = font_combo st;
              font_size = font_size_slider st;
              (font, st') = get_pil_font lib st font_name font_size;
              color = (case text_color st of (r, g, b) \<Rightarrow> (r, g, b, 255));
              max_text_width = int width - text_margins st * 2;
              lines = wrap_text lib display_title font max_text_width;
              line_spacing = line_spacing_of font_size (line_spacing_factor st);
              text_height = text_height_of (length lines) font_size line_spacing;
              y_position = (int height - text_height) div 2;
              (img', y_end) =
                 foldl (draw_line lib font color (int width) font_size line_spacing)
                   (img, y_position) lines
          in Inr ((img', filename_title), st')))"

section \<open>Saving a batch\<close>

text \<open>
  What the user and the file system do during a batch: the directory chosen in the dialog
  (empty when dismissed), whether Cancel has been pressed when iteration \<open>i\<close> asks, and
  the exception, if any, that writing a path raises.
\<close>

record gui =
  getExistingDirectory :: string
  wasCanceled :: "nat \<Rightarrow> bool"
  save_raises :: "string \<Rightarrow> py_exception option"

datatype ui_event =
    ProgressDialog string string int int
  | SetValue int
  | SetLabelText string
  | Information string string
  | Critical string string

record 'font batch_state =
  app :: "'font app_state"
  saved :: "(string \<times> image) list"
  ui_log :: "ui_event list"

text \<open>
  The loop \<open>for i in range(count)\<close> on the indices still to run. The result is the
  exception that left the loop, if any, with the state reached; \<open>break\<close> leaves it with
  none.
\<close>

fun batch_loop ::
  "'font pil \<Rightarrow> gui \<Rightarrow> string \<Rightarrow> int \<Rightarrow> int \<Rightarrow> nat list \<Rightarrow> 'font batch_state
     \<Rightarrow> py_exception option \<times> 'font batch_state" where
  "batch_loop lib g save_dir start_num count [] bs = (None, bs)"
| "batch_loop lib g save_dir start_num count (i # rest) bs =
     (if wasCanceled g i then (None, bs)
      else (let current_num = start_num + int i;
                bs1 = bs\<lparr>ui_log := ui_log bs
                        @ [SetValue (int i),
                           SetLabelText (''Generating thumbnail '' @ str_int (int i + 1)
                              @ '' of '' @ str_int count @ ''...'')]\<rparr>
            in case generate_thumbnail lib (app bs1) current_num 1280 720 of
                 Inl e \<Rightarrow> (Some e, bs1)
               | Inr ((img, title), st') \<Rightarrow>
                  (let filename = title @ ''_Thumbnail.png'';
                       file_path = path_join save_dir filename
                   in case save_raises g file_path of
                        Some e \<Rightarrow> (Some e, bs1\<lparr>app := st'\<rparr>)
                      | None \<Rightarrow>
                          batch_loop lib g save_dir start_num count rest
                            (bs1\<lparr>app := st', saved := saved bs1 @ [(file_path, img)]\<rparr>))))"

definition save_thumbnails :: "'font pil \<Rightarrow> gui \<Rightarrow> 'font batch_state \<Rightarrow> 'font batch_state" where
  "save_thumbnails lib g bs =
     (let save_dir = getExistingDirectory g
      in if save_dir = [] then bs
         else (let start_num = start_number (app bs);
                   count = batch_count (app bs);
                   bs1 = bs\<lparr>ui_log := ui_log bs
                           @ [ProgressDialog ''Generating thumbnails...'' ''Cancel'' 0 count]\<rparr>
               in case batch_loop lib g save_dir start_num count [0..<nat count] bs1 of
                    (None, bs2) \<Rightarrow>
                      bs2\<lparr>ui_log := ui_log bs2
                         @ [SetValue count,
                            Information ''Success''
                              (str_int count @ '' thumbnails saved successfully!'')]\<rparr>
                  | (Some e, bs2) \<Rightarrow>
                      bs2\<lparr>ui_log := ui_log bs2
                         @ [Critical ''Save Error''
                              (''Failed to save thumbnails: '' @ message e)]\<rparr>))"

section \<open>Notions used in the statements\<close>

text \<open>
  \<open>is_word\<close>: a non-empty string without whitespace, as \<open>split\<close> returns them.
  \<open>line_ok\<close>: a line that fits the width, or belongs to a given set of words.
  \<open>joined\<close>: a line made of words joined by single spaces.
\<close>

definition is_word :: "string \<Rightarrow> bool" where
  "is_word w = (w \<noteq> [] \<and> (\<forall>c\<in>set w. \<not> isspace c))"

definition line_ok :: "'font pil \<Rightarrow> 'font \<Rightarrow> int \<Rightarrow> string set \<Rightarrow> string \<Rightarrow> bool" where
  "line_ok lib font mw W l = (text_width lib font l \<le> mw \<or> l \<in> W)"

definition joined :: "string \<Rightarrow> bool" where
  "joined l = (\<exists>ws. ws \<noteq> [] \<and> (\<forall>w\<in>set ws. is_word w) \<and> l = str_join '' '' ws)"

text \<open>
  \<open>prefixes_fit\<close>: every tentative line of two or more words that the loop accepted
  while it built a line fits the width. \<open>lines_greedy\<close>: every line is made so, and
  each line followed by a space and the first word of the next line is too wide.
  \<open>greedy_inv\<close>: the invariant of the loop of \<open>wrap_text\<close>.
\<close>

definition prefixes_fit :: "'font pil \<Rightarrow> 'font \<Rightarrow> int \<Rightarrow> string list \<Rightarrow> bool" where
  "prefixes_fit lib font mw ws =
     (\<forall>j. 2 \<le> j \<and> j \<le> length ws \<longrightarrow> text_width lib font (str_join '' '' (take j ws)) \<le> mw)"

definition lines_greedy :: "'font pil \<Rightarrow> 'font \<Rightarrow> int \<Rightarrow> string list \<Rightarrow> bool" where
  "lines_greedy lib font mw lines =
     ((\<forall>l\<in>set lines. joined l \<and> prefixes_fit lib font mw (str_split l))
      \<and> (\<forall>i. Suc i < length lines \<longrightarrow>
            mw < text_width lib font (lines ! i @ '' '' @ hd (str_split (lines ! Suc i)))))"

definition greedy_inv ::
  "'font pil \<Rightarrow> 'font \<Rightarrow> int \<Rightarrow> string list \<times> string list \<Rightarrow> bool" where
  "greedy_inv lib font mw acc =
     (case acc of (lines, cur) \<Rightarrow>
        (\<forall>w\<in>set cur. is_word w)
        \<and> prefixes_fit lib font mw cur
        \<and> lines_greedy lib font mw lines
        \<and> (lines \<noteq> [] \<longrightarrow> cur \<noteq> [] \<and> mw < text_width lib font (last lines @ '' '' @ hd cur)))"



text \<open>
  \<open>canvas_of\<close>: the image of a rendering, or the exception it raised.
  \<open>load_fails\<close>: the lookup of a font reaches the \<open>except\<close> branch of \<open>get_pil_font\<close>:
  the key is not cached and loading raises.
  \<open>same_inputs\<close>: two states that differ at most in the font cache and the output.
\<close>

definition canvas_of ::
  "py_exception + ((image \<times> string) \<times> 'font app_state) \<Rightarrow> py_exception + image" where
  "canvas_of r = (case r of Inl e \<Rightarrow> Inl e | Inr ((img, filename_title), st') \<Rightarrow> Inr img)"

definition load_fails :: "'font pil \<Rightarrow> 'font app_state \<Rightarrow> string \<Rightarrow> int \<Rightarrow> bool" where
  "load_fails lib st font_name sz =
     (pil_fonts st (font_name @ ''_'' @ str_int sz) = None
      \<and> isl (case custom_fonts st font_name of
                Some font_path \<Rightarrow> truetype lib font_path sz
              | None \<Rightarrow> truetype lib font_name sz))"

definition same_inputs :: "'font app_state \<Rightarrow> 'font app_state \<Rightarrow> bool" where
  "same_inputs st' st = (\<exists>fonts out. st' = st\<lparr>pil_fonts := fonts, stdout := out\<rparr>)"

text \<open>
  \<open>thumbnail_path\<close>: the path under which the batch saves the item of a number.
  \<open>item_events\<close>: what iteration \<open>i\<close> tells the progress dialog before it renders.
  \<open>item_ok\<close>: iteration \<open>i\<close> is neither cancelled nor stopped by a failing write.
\<close>

definition thumbnail_path :: "'font app_state \<Rightarrow> string \<Rightarrow> int \<Rightarrow> string" where
  "thumbnail_path st save_dir number =
     path_join save_dir (filename_title_of st number @ ''_Thumbnail.png'')"

definition item_events :: "int \<Rightarrow> nat \<Rightarrow> ui_event list" where
  "item_events count i =
     [SetValue (int i),
      SetLabelText (''Generating thumbnail '' @ str_int (int i + 1)
         @ '' of '' @ str_int count @ ''...'')]"

definition item_ok :: "gui \<Rightarrow> 'font app_state \<Rightarrow> string \<Rightarrow> int \<Rightarrow> nat \<Rightarrow> bool" where
  "item_ok g st save_dir start i =
     (\<not> wasCanceled g i \<and> save_raises g (thumbnail_path st save_dir (start + int i)) = None)"

section \<open>An example world\<close>

text \<open>
  \<open>example_pil\<close>: a library in which a font is the path of the file it was loaded from
  (none for the built-in default font) and its size, every character is as wide as the
  font size, the readable font files are listed, the default font has size 10, drawing
  paints the first pixel, and resizing fills the new size with the first pixel.
\<close>

definition example_pil :: "string list \<Rightarrow> (string option \<times> int) pil" where
  "example_pil files =
     \<lparr>textbbox = (\<lambda>font s. case font of (origin, sz) \<Rightarrow> (0, 0, sz * int (length s), sz)),
      draw_text = (\<lambda>img pos s font color. img\<lparr>pixels := (pixels img)[0 := color]\<rparr>),
      truetype = (\<lambda>path sz. if path \<in> set files then Inr (Some path, sz)
                   else Inl (PyException ''cannot open resource'')),
      load_default = (None, 10),
      resize = (\<lambda>im sz. Image_new sz (case pixels im of [] \<Rightarrow> (0, 0, 0, 0) | p # _ \<Rightarrow> p)),
      fit = (\<lambda>im sz. Image_new sz (case pixels im of [] \<Rightarrow> (0, 0, 0, 0) | p # _ \<Rightarrow> p))\<rparr>"

text \<open>
  \<open>initial_state\<close>: the values that \<open>__init__\<close> and \<open>create_ui\<close> give the fields when
  the pattern and font directories are empty. \<open>titled_state\<close>: the same with one custom
  font, "Title", selected. \<open>wide_margin_state\<close>: the same with the margin slider at 200.
\<close>

definition initial_state :: "(string option \<times> int) app_state" where
  "initial_state =
     \<lparr>background_image = None,
      background_color = (215, 63, 9),
      text_color = (255, 255, 255),
      current_pattern = None,
      pattern_opacity = 100,
      custom_fonts = Map.empty,
      pil_fonts = Map.empty,
      text_margins = 100,
      line_spacing_factor = fl 53 (3 / 10),
      course_input = ''COURSE ###'',
      title_input = ''Week # Overview'',
      start_number = 1,
      batch_count = 10,
      font_combo = ''Impact'',
      font_size_slider = 60,
      stdout = []\<rparr>"

definition titled_state :: "(string option \<times> int) app_state" where
  "titled_state = initial_state\<lparr>custom_fonts := [''Title'' \<mapsto> ''data/Title.ttf''],
                                font_combo := ''Title''\<rparr>"

definition wide_margin_state :: "(string option \<times> int) app_state" where
  "wide_margin_state = initial_state\<lparr>text_margins := 200\<rparr>"

text \<open>
  Three users saving into "/out": one presses Cancel during the first item, one has a
  disk that fills up at the second file, one waits. \<open>three_items\<close>: a batch of three
  from the initial state. \<open>cs101_items\<close> and \<open>unnamed_items\<close>: batches of two with the
  course name "CS 101" and with no course name.
\<close>

definition cancelling_gui :: gui where
  "cancelling_gui = \<lparr>getExistingDirectory = ''/out'', wasCanceled = (\<lambda>i. 1 \<le> i),
                      save_raises = (\<lambda>p. None)\<rparr>"

definition full_disk_gui :: gui where
  "full_disk_gui = \<lparr>getExistingDirectory = ''/out'', wasCanceled = (\<lambda>i. False),
      save_raises = (\<lambda>p. if p = ''/out/COURSE ### - Week 2 Overview_Thumbnail.png''
                          then Some (PyException ''No space left on device'') else None)\<rparr>"

definition patient_gui :: gui where
  "patient_gui = \<lparr>getExistingDirectory = ''/out'', wasCanceled = (\<lambda>i. False),
                   save_raises = (\<lambda>p. None)\<rparr>"

definition three_items :: "(string option \<times> int) batch_state" where
  "three_items = \<lparr>app = initial_state\<lparr>batch_count := 3\<rparr>, saved = [], ui_log = []\<rparr>"

definition cs101_items :: "(string option \<times> int) batch_state" where
  "cs101_items = \<lparr>app = initial_state\<lparr>course_input := ''CS 101'', batch_count := 2\<rparr>,
                   saved = [], ui_log = []\<rparr>"

definition unnamed_items :: "(string option \<times> int) batch_state" where
  "unnamed_items = \<lparr>app = initial_state\<lparr>course_input := [], batch_count := 2\<rparr>,
                     saved = [], ui_log = []\<rparr>"

section \<open>Properties\<close>

subsection \<open>Splitting and joining\<close>

lemma split_from_nospace:
  "\<forall>c\<in>set w. \<not> isspace c \<Longrightarrow>
     split_from cur w = (if cur = [] \<and> w = [] then [] else [cur @ w])"
  by (induction w arbitrary: cur) simp_all

lemma split_from_sep:
  "isspace c \<Longrightarrow> split_from cur (a @ c # b) = split_from cur a @ split_from [] b"
  by (induction a arbitrary: cur) simp_all

lemma split_from_words:
  "w \<in> set (split_from cur s) \<Longrightarrow> \<forall>c\<in>set cur. \<not> isspace c \<Longrightarrow> is_word w"
proof (induction s arbitrary: cur)
  case Nil
  then show ?case by (simp add: is_word_def split: if_splits)
next
  case (Cons c cs)
  show ?case
  proof (cases "isspace c")
    case True
    with Cons.prems have "w = cur \<and> cur \<noteq> [] \<or> w \<in> set (split_from [] cs)"
      by (simp split: if_splits)
    then show ?thesis using Cons.IH[of "[]"] Cons.prems(2) by (auto simp: is_word_def)
  next
    case False
    with Cons.prems have "w \<in> set (split_from (cur @ [c]) cs)" by simp
    moreover have "\<forall>x\<in>set (cur @ [c]). \<not> isspace x" using False Cons.prems(2) by simp
    ultimately show ?thesis using Cons.IH by blast
  qed
qed

lemma str_split_words: "w \<in> set (str_split s) \<Longrightarrow> is_word w"
  unfolding str_split_def using split_from_words[of w "[]" s] by simp

lemma str_split_word: "is_word w \<Longrightarrow> str_split w = [w]"
  unfolding str_split_def is_word_def using split_from_nospace[of w "[]"] by simp

lemma str_split_sep:
  "isspace c \<Longrightarrow> str_split (a @ c # b) = str_split a @ str_split b"
  unfolding str_split_def by (rule split_from_sep)

lemma str_split_join_lines:
  "isspace c \<Longrightarrow> str_split (str_join [c] ls) = concat (map str_split ls)"
proof (induction "[c]" ls rule: str_join.induct)
  case 1
  then show ?case by (simp add: str_split_def)
next
  case (2 x)
  then show ?case by simp
next
  case (3 x y ys)
  then show ?case using str_split_sep[of c x "str_join [c] (y # ys)"] by simp
qed

lemma concat_map_split_words:
  "\<forall>w\<in>set ws. is_word w \<Longrightarrow> concat (map str_split ws) = ws"
  by (induction ws) (simp_all add: str_split_word)

lemma str_split_join_words:
  "isspace c \<Longrightarrow> \<forall>w\<in>set ws. is_word w \<Longrightarrow> str_split (str_join [c] ws) = ws"
  by (simp add: str_split_join_lines concat_map_split_words)

lemma isspace_space: "isspace CHR '' ''"
  by (simp add: isspace_def)

lemma isspace_newline: "isspace CHR 0x0A"
  by (simp add: isspace_def)

subsection \<open>Word wrap\<close>

lemma wrap_fold_ok:
  assumes "set words \<subseteq> W"
    and "\<forall>l\<in>set lines. line_ok lib font mw W l"
    and "cur = [] \<or> line_ok lib font mw W (str_join '' '' cur)"
    and "foldl (wrap_step lib font mw) (lines, cur) words = (lines', cur')"
  shows "(\<forall>l\<in>set lines'. line_ok lib font mw W l)
       \<and> (cur' = [] \<or> line_ok lib font mw W (str_join '' '' cur'))"
  using assms
proof (induction words arbitrary: lines cur)
  case Nil
  then show ?case by simp
next
  case (Cons word words)
  obtain l1 c1 where step: "wrap_step lib font mw (lines, cur) word = (l1, c1)"
    by (cases "wrap_step lib font mw (lines, cur) word")
  have wW: "word \<in> W" using Cons.prems(1) by simp
  have single: "line_ok lib font mw W (str_join '' '' [word])"
    using wW by (simp add: line_ok_def)
  have l1: "\<forall>l\<in>set l1. line_ok lib font mw W l"
    using step Cons.prems(2,3) by (auto simp: wrap_step_def Let_def split: if_splits)
  have c1: "c1 = [] \<or> line_ok lib font mw W (str_join '' '' c1)"
  proof (cases "mw < text_width lib font (str_join '' '' (cur @ [word])) \<and> cur \<noteq> []")
    case True
    then have "c1 = [word]" using step by (simp add: wrap_step_def Let_def)
    then show ?thesis using single by simp
  next
    case False
    then have eq: "c1 = cur @ [word]" using step by (auto simp: wrap_step_def Let_def)
    show ?thesis
    proof (cases "cur = []")
      case True
      then show ?thesis using eq single by simp
    next
      case False
      with \<open>\<not> (mw < text_width lib font (str_join '' '' (cur @ [word])) \<and> cur \<noteq> [])\<close>
      have "text_width lib font (str_join '' '' (cur @ [word])) \<le> mw" by simp
      then show ?thesis using eq by (simp add: line_ok_def)
    qed
  qed
  have "foldl (wrap_step lib font mw) (l1, c1) words = (lines', cur')"
    using Cons.prems(4) step by simp
  moreover have "set words \<subseteq> W" using Cons.prems(1) by simp
  ultimately show ?case using Cons.IH[OF _ l1 c1] by blast
qed

lemma wrap_fold_concat:
  assumes "\<forall>w\<in>set words. is_word w"
    and "\<forall>w\<in>set cur. is_word w"
    and "foldl (wrap_step lib font mw) (lines, cur) words = (lines', cur')"
  shows "concat (map str_split lines') @ cur' = concat (map str_split lines) @ cur @ words
       \<and> (\<forall>w\<in>set cur'. is_word w)"
  using assms
proof (induction words arbitrary: lines cur)
  case Nil
  then show ?case by simp
next
  case (Cons word words)
  obtain l1 c1 where step: "wrap_step lib font mw (lines, cur) word = (l1, c1)"
    by (cases "wrap_step lib font mw (lines, cur) word")
  have w: "is_word word" using Cons.prems(1) by simp
  have cur: "str_split (str_join '' '' cur) = cur"
    using str_split_join_words[OF isspace_space Cons.prems(2)] by simp
  have a: "concat (map str_split l1) @ c1 = concat (map str_split lines) @ cur @ [word]"
    using step cur by (auto simp: wrap_step_def Let_def split: if_splits)
  have b: "\<forall>w\<in>set c1. is_word w"
    using step w Cons.prems(2) by (auto simp: wrap_step_def Let_def split: if_splits)
  have "foldl (wrap_step lib font mw) (l1, c1) words = (lines', cur')"
    using Cons.prems(3) step by simp
  moreover have "\<forall>w\<in>set words. is_word w" using Cons.prems(1) by simp
  ultimately have "concat (map str_split lines') @ cur'
      = concat (map str_split l1) @ c1 @ words \<and> (\<forall>w\<in>set cur'. is_word w)"
    using Cons.IH[OF _ b] by blast
  then show ?case using a by simp
qed

lemma wrap_text_concat:
  "concat (map str_split (wrap_text lib text font mw)) = str_split text"
proof -
  obtain lines cur where f:
    "foldl (wrap_step lib font mw) ([], []) (str_split text) = (lines, cur)"
    by (cases "foldl (wrap_step lib font mw) ([], []) (str_split text)")
  have words: "\<forall>w\<in>set (str_split text). is_word w"
    using str_split_words by blast
  have c: "concat (map str_split lines) @ cur = str_split text" "\<forall>w\<in>set cur. is_word w"
    using wrap_fold_concat[OF words _ f] by simp_all
  have j: "str_split (str_join '' '' cur) = cur"
    using str_split_join_words[OF isspace_space c(2)] by simp
  show ?thesis
  proof (cases "cur = []")
    case True
    then show ?thesis using f c(1) by (simp add: wrap_text_def)
  next
    case False
    then show ?thesis using f c(1) j by (simp add: wrap_text_def)
  qed
qed

lemma wrap_text_line_ok:
  assumes "line \<in> set (wrap_text lib text font mw)"
  shows "line_ok lib font mw (set (str_split text)) line"
proof -
  obtain lines cur where f:
    "foldl (wrap_step lib font mw) ([], []) (str_split text) = (lines, cur)"
    by (cases "foldl (wrap_step lib font mw) ([], []) (str_split text)")
  have inv: "(\<forall>l\<in>set lines. line_ok lib font mw (set (str_split text)) l)
       \<and> (cur = [] \<or> line_ok lib font mw (set (str_split text)) (str_join '' '' cur))"
    using wrap_fold_ok[OF _ _ _ f, of "set (str_split text)"] by simp
  from assms f have "line \<in> set lines \<or> (cur \<noteq> [] \<and> line = str_join '' '' cur)"
    by (auto simp: wrap_text_def split: if_splits)
  then show ?thesis using inv by auto
qed

lemma wrap_text_two_words:
  assumes "str_split text = [a, b]"
  shows "wrap_text lib text font mw =
     (if text_width lib font (a @ '' '' @ b) \<le> mw then [a @ '' '' @ b] else [a, b])"
  using assms by (simp add: wrap_text_def wrap_step_def Let_def)

text \<open>
  C7. Word wrap is idempotent: wrapping the lines of \<open>wrap_text\<close>, joined by newlines,
  at the same width gives the same lines again. It holds for every text, normalised or
  not, because the result depends on the text only through its words.
\<close>

theorem wrap_text_idempotent:
  "wrap_text lib (str_join [CHR 0x0A] (wrap_text lib text font mw)) font mw
     = wrap_text lib text font mw"
proof -
  have "str_split (str_join [CHR 0x0A] (wrap_text lib text font mw)) = str_split text"
    using str_split_join_lines[OF isspace_newline] wrap_text_concat by simp
  then show ?thesis by (simp add: wrap_text_def)
qed

lemma wrap_fold_shape:
  assumes "\<forall>w\<in>set words. is_word w"
    and "\<forall>l\<in>set lines. joined l"
    and "\<forall>w\<in>set cur. is_word w"
    and "foldl (wrap_step lib font mw) (lines, cur) words = (lines', cur')"
  shows "(\<forall>l\<in>set lines'. joined l) \<and> (\<forall>w\<in>set cur'. is_word w)"
  using assms
proof (induction words arbitrary: lines cur)
  case Nil
  then show ?case by simp
next
  case (Cons word words)
  obtain l1 c1 where step: "wrap_step lib font mw (lines, cur) word = (l1, c1)"
    by (cases "wrap_step lib font mw (lines, cur) word")
  have w: "is_word word" using Cons.prems(1) by simp
  have curj: "cur \<noteq> [] \<Longrightarrow> joined (str_join '' '' cur)"
    using Cons.prems(3) unfolding joined_def by blast
  have l1: "\<forall>l\<in>set l1. joined l"
    using step Cons.prems(2) curj by (auto simp: wrap_step_def Let_def split: if_splits)
  have c1: "\<forall>w\<in>set c1. is_word w"
    using step w Cons.prems(3) by (auto simp: wrap_step_def Let_def split: if_splits)
  have "foldl (wrap_step lib font mw) (l1, c1) words = (lines', cur')"
    using Cons.prems(4) step by simp
  moreover have "\<forall>w\<in>set words. is_word w" using Cons.prems(1) by simp
  ultimately show ?case using Cons.IH[OF _ l1 c1] by blast
qed

lemma wrap_text_line_shape:
  assumes "line \<in> set (wrap_text lib text font mw)"
  shows "joined line"
proof -
  obtain lines cur where f:
    "foldl (wrap_step lib font mw) ([], []) (str_split text) = (lines, cur)"
    by (cases "foldl (wrap_step lib font mw) ([], []) (str_split text)")
  have words: "\<forall>w\<in>set (str_split text). is_word w"
    using str_split_words by blast
  have inv: "(\<forall>l\<in>set lines. joined l) \<and> (\<forall>w\<in>set cur. is_word w)"
    using wrap_fold_shape[OF words _ _ f] by simp
  from assms f have "line \<in> set lines \<or> (cur \<noteq> [] \<and> line = str_join '' '' cur)"
    by (auto simp: wrap_text_def split: if_splits)
  then show ?thesis using inv unfolding joined_def by blast
qed

lemma length_le_str_join:
  "w \<in> set ws \<Longrightarrow> length w \<le> length (str_join sep ws)"
  by (induction sep ws rule: str_join.induct) auto

lemma wrap_text_basic:
  "(\<forall>line\<in>set (wrap_text lib text font max_width).
       text_width lib font line \<le> max_width
       \<or> (line \<in> set (str_split text) \<and> str_split line = [line]))
   \<and> concat (map str_split (wrap_text lib text font max_width)) = str_split text
   \<and> (\<forall>a b. str_split text = [a, b] \<longrightarrow>
         wrap_text lib text font max_width =
           (if text_width lib font (a @ '' '' @ b) \<le> max_width
            then [a @ '' '' @ b] else [a, b]))
   \<and> ((\<forall>ws w. w \<in> set ws \<longrightarrow>
           text_width lib font w \<le> text_width lib font (str_join '' '' ws)) \<longrightarrow>
        (\<forall>line\<in>set (wrap_text lib text font max_width).
           \<forall>w\<in>set (str_split line). max_width < text_width lib font w \<longrightarrow> line = w))"
proof (intro conjI ballI allI impI)
  fix line assume lin: "line \<in> set (wrap_text lib text font max_width)"
  show "text_width lib font line \<le> max_width
       \<or> (line \<in> set (str_split text) \<and> str_split line = [line])"
    using wrap_text_line_ok[OF lin] str_split_words[of line "text"] str_split_word[of line]
    by (auto simp: line_ok_def)
next
  show "concat (map str_split (wrap_text lib text font max_width)) = str_split text"
    by (rule wrap_text_concat)
next
  fix a b assume "str_split text = [a, b]"
  then show "wrap_text lib text font max_width =
           (if text_width lib font (a @ '' '' @ b) \<le> max_width
            then [a @ '' '' @ b] else [a, b])"
    by (rule wrap_text_two_words)
next
  fix line w
  assume mono: "\<forall>ws w. w \<in> set ws \<longrightarrow>
           text_width lib font w \<le> text_width lib font (str_join '' '' ws)"
    and lin: "line \<in> set (wrap_text lib text font max_width)"
    and w: "w \<in> set (str_split line)"
    and wide: "max_width < text_width lib font w"
  obtain ws where ws: "\<forall>v\<in>set ws. is_word v" "line = str_join '' '' ws"
    using wrap_text_line_shape[OF lin] unfolding joined_def by blast
  have sp: "str_split line = ws"
    using str_split_join_words[OF isspace_space ws(1)] ws(2) by simp
  show "line = w"
  proof (cases "text_width lib font line \<le> max_width")
    case True
    have "text_width lib font w \<le> text_width lib font line"
    proof -
      have "w \<in> set ws" using w sp by simp
      then have "text_width lib font w \<le> text_width lib font (str_join '' '' ws)"
        using mono by blast
      then show ?thesis using ws(2) by simp
    qed
    then show ?thesis using True wide by simp
  next
    case False
    then have "line \<in> set (str_split text)"
      using wrap_text_line_ok[OF lin] by (simp add: line_ok_def)
    then have "str_split line = [line]" using str_split_words str_split_word by blast
    then show ?thesis using w by simp
  qed
qed

lemma example_wrap:
  "wrap_text (example_pil []) ''aa bb cccccccc d'' (None, 10) 50
     = [''aa bb'', ''cccccccc'', ''d'']"
  by (simp add: wrap_text_def wrap_step_def str_split_def isspace_def text_width_def
      example_pil_def Let_def)

lemma str_join_snoc:
  "ws \<noteq> [] \<Longrightarrow> str_join sep (ws @ [w]) = str_join sep ws @ sep @ w"
  by (induction sep ws rule: str_join.induct) simp_all

lemma lines_greedy_snoc:
  assumes g: "lines_greedy lib font mw lines"
    and c: "\<forall>w\<in>set cur. is_word w" and ne: "cur \<noteq> []"
    and p: "prefixes_fit lib font mw cur"
    and d: "lines \<noteq> [] \<longrightarrow> mw < text_width lib font (last lines @ '' '' @ hd cur)"
  shows "lines_greedy lib font mw (lines @ [str_join '' '' cur])"
proof -
  have sp: "str_split (str_join '' '' cur) = cur"
    using str_split_join_words[OF isspace_space c] by simp
  have j: "joined (str_join '' '' cur)"
    unfolding joined_def using c ne by blast
  have a: "\<forall>l\<in>set (lines @ [str_join '' '' cur]).
      joined l \<and> prefixes_fit lib font mw (str_split l)"
    using g j p sp by (auto simp: lines_greedy_def)
  have b: "\<forall>i. Suc i < length (lines @ [str_join '' '' cur]) \<longrightarrow>
      mw < text_width lib font ((lines @ [str_join '' '' cur]) ! i @ '' '' @
             hd (str_split ((lines @ [str_join '' '' cur]) ! Suc i)))"
  proof (intro allI impI)
    fix i assume i: "Suc i < length (lines @ [str_join '' '' cur])"
    show "mw < text_width lib font ((lines @ [str_join '' '' cur]) ! i @ '' '' @
             hd (str_split ((lines @ [str_join '' '' cur]) ! Suc i)))"
    proof (cases "Suc i < length lines")
      case True
      then have "(lines @ [str_join '' '' cur]) ! i = lines ! i"
        "(lines @ [str_join '' '' cur]) ! Suc i = lines ! Suc i"
        by (simp_all add: nth_append)
      then show ?thesis using g True by (simp add: lines_greedy_def)
    next
      case False
      with i have e: "Suc i = length lines" by simp
      then have ln: "lines \<noteq> []" by auto
      have "i = length lines - 1" using e by simp
      then have "(lines @ [str_join '' '' cur]) ! i = last lines"
        using e ln by (simp add: nth_append last_conv_nth)
      moreover have "(lines @ [str_join '' '' cur]) ! Suc i = str_join '' '' cur"
        using e by (simp add: nth_append)
      ultimately show ?thesis using d ln sp by simp
    qed
  qed
  show ?thesis unfolding lines_greedy_def using a b by blast
qed

lemma wrap_step_greedy:
  assumes inv: "greedy_inv lib font mw (lines, cur)" and w: "is_word word"
  shows "greedy_inv lib font mw (wrap_step lib font mw (lines, cur) word)"
proof -
  from inv have c: "\<forall>w\<in>set cur. is_word w"
    and p: "prefixes_fit lib font mw cur"
    and g: "lines_greedy lib font mw lines"
    and d: "lines \<noteq> [] \<longrightarrow> cur \<noteq> [] \<and> mw < text_width lib font (last lines @ '' '' @ hd cur)"
    by (simp_all add: greedy_inv_def)
  show ?thesis
  proof (cases "mw < text_width lib font (str_join '' '' (cur @ [word])) \<and> cur \<noteq> []")
    case True
    then have st: "wrap_step lib font mw (lines, cur) word
        = (lines @ [str_join '' '' cur], [word])"
      by (simp add: wrap_step_def Let_def)
    have ne: "cur \<noteq> []" using True by simp
    have g': "lines_greedy lib font mw (lines @ [str_join '' '' cur])"
      using lines_greedy_snoc[OF g c ne p] d by blast
    have "mw < text_width lib font (str_join '' '' cur @ '' '' @ word)"
      using True str_join_snoc[OF ne, of "'' ''" word] by simp
    then show ?thesis
      unfolding st using g' w by (simp add: greedy_inv_def prefixes_fit_def)
  next
    case False
    then have st: "wrap_step lib font mw (lines, cur) word = (lines, cur @ [word])"
      by (auto simp: wrap_step_def Let_def)
    have p': "prefixes_fit lib font mw (cur @ [word])"
      unfolding prefixes_fit_def
    proof (intro allI impI)
      fix j assume j: "2 \<le> j \<and> j \<le> length (cur @ [word])"
      show "text_width lib font (str_join '' '' (take j (cur @ [word]))) \<le> mw"
      proof (cases "j \<le> length cur")
        case True
        then show ?thesis using p j by (simp add: prefixes_fit_def)
      next
        case False
        with j have e: "j = Suc (length cur)" by simp
        with j have "cur \<noteq> []" by auto
        with \<open>\<not> (mw < text_width lib font (str_join '' '' (cur @ [word])) \<and> cur \<noteq> [])\<close>
        have "text_width lib font (str_join '' '' (cur @ [word])) \<le> mw" by simp
        then show ?thesis using e by simp
      qed
    qed
    have d': "lines \<noteq> [] \<longrightarrow> cur @ [word] \<noteq> []
        \<and> mw < text_width lib font (last lines @ '' '' @ hd (cur @ [word]))"
      using d by auto
    show ?thesis
      unfolding st using c w p' g d' by (simp add: greedy_inv_def)
  qed
qed

lemma wrap_fold_greedy:
  assumes "\<forall>w\<in>set words. is_word w" and "greedy_inv lib font mw acc"
  shows "greedy_inv lib font mw (foldl (wrap_step lib font mw) acc words)"
  using assms
proof (induction words arbitrary: acc)
  case Nil
  then show ?case by simp
next
  case (Cons word words)
  obtain lines cur where acc: "acc = (lines, cur)" by (cases acc)
  have "greedy_inv lib font mw (wrap_step lib font mw acc word)"
    using wrap_step_greedy[of lib font mw lines cur word] Cons.prems acc by simp
  then show ?case using Cons.IH Cons.prems(1) by simp
qed

lemma wrap_text_greedy: "lines_greedy lib font mw (wrap_text lib text font mw)"
proof -
  obtain lines cur where f:
    "foldl (wrap_step lib font mw) ([], []) (str_split text) = (lines, cur)"
    by (cases "foldl (wrap_step lib font mw) ([], []) (str_split text)")
  have words: "\<forall>w\<in>set (str_split text). is_word w"
    using str_split_words by blast
  have "greedy_inv lib font mw ([], [])"
    by (simp add: greedy_inv_def prefixes_fit_def lines_greedy_def)
  from wrap_fold_greedy[OF words this] f
  have inv: "greedy_inv lib font mw (lines, cur)" by simp
  then have c: "\<forall>w\<in>set cur. is_word w"
    and p: "prefixes_fit lib font mw cur"
    and g: "lines_greedy lib font mw lines"
    and d: "lines \<noteq> [] \<longrightarrow> cur \<noteq> [] \<and> mw < text_width lib font (last lines @ '' '' @ hd cur)"
    by (simp_all add: greedy_inv_def)
  show ?thesis
  proof (cases "cur = []")
    case True
    then show ?thesis using f g by (simp add: wrap_text_def)
  next
    case False
    have "lines_greedy lib font mw (lines @ [str_join '' '' cur])"
      using lines_greedy_snoc[OF g c False p] d by blast
    then show ?thesis using f False by (simp add: wrap_text_def)
  qed
qed

text \<open>
  C1. Every line of \<open>wrap_text\<close> measures at most \<open>max_width\<close>, or is one word of the
  text on a line of its own; the words of the lines, in order, are the words of the text
  (none split, none dropped); when no line measures less than a word in it, every word
  wider than \<open>max_width\<close> is alone on its line. For every text the wraps are exactly the
  forced ones: within a line, every tentative line of two or more words measured at
  most \<open>max_width\<close> (so a width equal to \<open>max_width\<close> is accepted), and every line
  followed by a space and the first word of the next line measures more than
  \<open>max_width\<close>; a step of the loop wraps exactly when the tentative line is wider than
  \<open>max_width\<close> and the current line is not empty.
\<close>

theorem wrap_text_fits:
  "(\<forall>line\<in>set (wrap_text lib text font max_width).
       text_width lib font line \<le> max_width
       \<or> (line \<in> set (str_split text) \<and> str_split line = [line]))
   \<and> concat (map str_split (wrap_text lib text font max_width)) = str_split text
   \<and> (\<forall>a b. str_split text = [a, b] \<longrightarrow>
         wrap_text lib text font max_width =
           (if text_width lib font (a @ '' '' @ b) \<le> max_width
            then [a @ '' '' @ b] else [a, b]))
   \<and> ((\<forall>ws w. w \<in> set ws \<longrightarrow>
           text_width lib font w \<le> text_width lib font (str_join '' '' ws)) \<longrightarrow>
        (\<forall>line\<in>set (wrap_text lib text font max_width).
           \<forall>w\<in>set (str_split line). max_width < text_width lib font w \<longrightarrow> line = w))
   \<and> (\<forall>line\<in>set (wrap_text lib text font max_width).
         \<forall>j. 2 \<le> j \<and> j \<le> length (str_split line) \<longrightarrow>
           text_width lib font (str_join '' '' (take j (str_split line))) \<le> max_width)
   \<and> (\<forall>i. Suc i < length (wrap_text lib text font max_width) \<longrightarrow>
         max_width < text_width lib font
           (wrap_text lib text font max_width ! i @ '' '' @
            hd (str_split (wrap_text lib text font max_width ! Suc i))))
   \<and> (\<forall>lines current_line word.
         wrap_step lib font max_width (lines, current_line) word =
           (if max_width < text_width lib font (str_join '' '' (current_line @ [word]))
               \<and> current_line \<noteq> []
            then (lines @ [str_join '' '' current_line], [word])
            else (lines, current_line @ [word])))"
proof -
  note g = wrap_text_greedy[of lib font max_width "text", unfolded lines_greedy_def]
  have p1: "\<forall>line\<in>set (wrap_text lib text font max_width).
         \<forall>j. 2 \<le> j \<and> j \<le> length (str_split line) \<longrightarrow>
           text_width lib font (str_join '' '' (take j (str_split line))) \<le> max_width"
    using g unfolding prefixes_fit_def by blast
  have p2: "\<forall>i. Suc i < length (wrap_text lib text font max_width) \<longrightarrow>
         max_width < text_width lib font
           (wrap_text lib text font max_width ! i @ '' '' @
            hd (str_split (wrap_text lib text font max_width ! Suc i)))"
    using g by blast
  have st: "\<forall>lines current_line word.
         wrap_step lib font max_width (lines, current_line) word =
           (if max_width < text_width lib font (str_join '' '' (current_line @ [word]))
               \<and> current_line \<noteq> []
            then (lines @ [str_join '' '' current_line], [word])
            else (lines, current_line @ [word]))"
    by (simp add: wrap_step_def Let_def)
  note b = wrap_text_basic[of lib "text" font max_width]
  show ?thesis
    by (rule conjI[OF b[THEN conjunct1] conjI[OF b[THEN conjunct2, THEN conjunct1]
          conjI[OF b[THEN conjunct2, THEN conjunct2, THEN conjunct1]
            conjI[OF b[THEN conjunct2, THEN conjunct2, THEN conjunct2]
              conjI[OF p1 conjI[OF p2 st]]]]]])
qed

theorem wrap_text_fits_witness:
  "wrap_text (example_pil []) ''aa bb cccccccc d'' (None, 10) 50
     = [''aa bb'', ''cccccccc'', ''d'']
   \<and> text_width (example_pil []) (None, 10) ''aa bb'' = 50
   \<and> text_width (example_pil []) (None, 10) ''cccccccc'' = 80
   \<and> ''cccccccc'' \<in> set (str_split ''aa bb cccccccc d'')
   \<and> str_split ''cccccccc'' = [''cccccccc'']
   \<and> concat (map str_split [''aa bb'', ''cccccccc'', ''d'']) = str_split ''aa bb cccccccc d''
   \<and> 50 < text_width (example_pil []) (None, 10) (''aa bb'' @ '' '' @ ''cccccccc'')
   \<and> 50 < text_width (example_pil []) (None, 10) (''cccccccc'' @ '' '' @ ''d'')"
proof -
  have mono: "\<forall>ws w. w \<in> set ws \<longrightarrow>
      text_width (example_pil []) (None, 10) w
        \<le> text_width (example_pil []) (None, 10) (str_join '' '' ws)"
    using length_le_str_join by (simp add: text_width_def example_pil_def)
  have w1: "text_width (example_pil []) (None, 10) ''aa bb'' = 50"
    by (simp add: text_width_def example_pil_def)
  have w2: "text_width (example_pil []) (None, 10) ''cccccccc'' = 80"
    by (simp add: text_width_def example_pil_def)
  note inst = wrap_text_fits[of "example_pil []" "''aa bb cccccccc d''" "(None, 10)" 50,
      unfolded example_wrap]
  from inst have fit: "\<forall>line\<in>set [''aa bb'', ''cccccccc'', ''d''].
      text_width (example_pil []) (None, 10) line \<le> 50
      \<or> (line \<in> set (str_split ''aa bb cccccccc d'') \<and> str_split line = [line])"
    by (rule conjunct1)
  from inst have cat: "concat (map str_split [''aa bb'', ''cccccccc'', ''d''])
      = str_split ''aa bb cccccccc d''"
    by (elim conjE)
  from fit have "text_width (example_pil []) (None, 10) ''cccccccc'' \<le> 50
      \<or> (''cccccccc'' \<in> set (str_split ''aa bb cccccccc d'')
          \<and> str_split ''cccccccc'' = [''cccccccc''])"
    by simp
  with w2 have alone: "''cccccccc'' \<in> set (str_split ''aa bb cccccccc d'')
      \<and> str_split ''cccccccc'' = [''cccccccc'']"
    by simp
  from inst have forced: "\<forall>i. Suc i < length [''aa bb'', ''cccccccc'', ''d''] \<longrightarrow>
      50 < text_width (example_pil []) (None, 10)
        ([''aa bb'', ''cccccccc'', ''d''] ! i @ '' '' @
         hd (str_split ([''aa bb'', ''cccccccc'', ''d''] ! Suc i)))"
    by blast
  have sd: "str_split ''d'' = [''d'']"
    by (simp add: str_split_def isspace_def)
  from forced[rule_format, of 0] alone
  have f0: "50 < text_width (example_pil []) (None, 10) (''aa bb'' @ '' '' @ ''cccccccc'')"
    by simp
  from forced[rule_format, of 1] sd
  have f1: "50 < text_width (example_pil []) (None, 10) (''cccccccc'' @ '' '' @ ''d'')"
    by simp
  show ?thesis using example_wrap w1 w2 alone cat f0 f1 by simp
qed

subsection \<open>Numbers and the placeholder\<close>









lemma str_int_1: "str_int 1 = ''1''"
  by code_simp

lemma str_int_2: "str_int 2 = ''2''"
  by code_simp

lemma str_int_3: "str_int 3 = ''3''"
  by code_simp




subsection \<open>Placement of the lines\<close>

lemma draw_lines_positions:
  "foldl (draw_line lib font color W fs ls) (img, y0) lines =
     (foldl (\<lambda>im i. draw_text lib im
               ((W - text_width lib font (lines ! i)) div 2, y0 + int i * (fs + ls))
               (lines ! i) font color)
        img [0..<length lines],
      y0 + int (length lines) * (fs + ls))"
proof (induction lines rule: rev_induct)
  case Nil
  then show ?case by simp
next
  case (snoc x xs)
  have same: "foldl (\<lambda>im i. draw_text lib im
               ((W - text_width lib font ((xs @ [x]) ! i)) div 2, y0 + int i * (fs + ls))
               ((xs @ [x]) ! i) font color) img [0..<length xs]
      = foldl (\<lambda>im i. draw_text lib im
               ((W - text_width lib font (xs ! i)) div 2, y0 + int i * (fs + ls))
               (xs ! i) font color) img [0..<length xs]"
    by (rule foldl_cong) (simp_all add: nth_append)
  show ?case
    using snoc same by (simp add: draw_line_def Let_def algebra_simps)
qed

lemma draw_loop_centred:
  "fst (foldl (draw_line lib font color width font_size line_spacing) (img, y_position) lines)
     = foldl (\<lambda>im i. draw_text lib im
                ((width - text_width lib font (lines ! i)) div 2,
                 y_position + int i * (font_size + line_spacing))
                (lines ! i) font color)
         img [0..<length lines]
   \<and> (\<forall>i < length lines.
         (let line_width = text_width lib font (lines ! i);
              x_position = (width - line_width) div 2
          in 0 \<le> (width - (x_position + line_width)) - x_position
             \<and> (width - (x_position + line_width)) - x_position \<le> 1))"
proof (intro conjI allI impI)
  show "fst (foldl (draw_line lib font color width font_size line_spacing) (img, y_position) lines)
     = foldl (\<lambda>im i. draw_text lib im
                ((width - text_width lib font (lines ! i)) div 2,
                 y_position + int i * (font_size + line_spacing))
                (lines ! i) font color)
         img [0..<length lines]"
    by (simp add: draw_lines_positions)
next
  fix i assume "i < length lines"
  show "let line_width = text_width lib font (lines ! i);
              x_position = (width - line_width) div 2
          in 0 \<le> (width - (x_position + line_width)) - x_position
             \<and> (width - (x_position + line_width)) - x_position \<le> 1"
    unfolding Let_def by presburger
qed

lemma generate_thumbnail_unfold:
  "generate_thumbnail lib st number width height =
     (let font_size = font_size_slider st;
          font = fst (get_pil_font lib st (font_combo st) font_size);
          lines = wrap_text lib (title_of st number) font (int width - text_margins st * 2);
          line_spacing = line_spacing_of font_size (line_spacing_factor st);
          pitch = font_size + line_spacing;
          block_height = pitch * int (length lines) - line_spacing;
          y_start = (int height - block_height) div 2
      in case apply_overlay lib st (width, height) (base_image lib st (width, height)) of
           Inl e \<Rightarrow> Inl e
         | Inr img \<Rightarrow>
             Inr ((foldl (\<lambda>im i. draw_text lib im
                            ((int width - text_width lib font (lines ! i)) div 2,
                             y_start + int i * pitch)
                            (lines ! i) font
                            (case text_color st of (r, g, b) \<Rightarrow> (r, g, b, 255)))
                     img [0..<length lines],
                   filename_title_of st number),
                  snd (get_pil_font lib st (font_combo st) font_size)))"
  by (simp add: generate_thumbnail_def Let_def draw_lines_positions text_height_of_def
      split_beta mult.commute split: sum.splits)

lemmas float_eval = fl_def float_exponent_def pow2_def round_half_even_def py_int_def
  py_int_times_float_def py_truediv_def bit_length.simps Let_def

lemma centred_margins:
  "0 \<le> (w - ((w - lw) div 2 + lw)) - (w - lw) div 2
   \<and> (w - ((w - lw) div 2 + lw)) - (w - lw) div 2 \<le> (1 :: int)"
  by presburger

lemma canvas_of_generate_thumbnail:
  "canvas_of (generate_thumbnail lib st number canvas_width canvas_height) =
     (let font_size = font_size_slider st;
          font = fst (get_pil_font lib st (font_combo st) font_size);
          lines = wrap_text lib (title_of st number) font
                    (int canvas_width - text_margins st * 2);
          line_spacing = line_spacing_of font_size (line_spacing_factor st);
          pitch = font_size + line_spacing;
          block_height = pitch * int (length lines) - line_spacing;
          y_start = (int canvas_height - block_height) div 2
      in case apply_overlay lib st (canvas_width, canvas_height)
                (base_image lib st (canvas_width, canvas_height)) of
           Inl e \<Rightarrow> Inl e
         | Inr canvas \<Rightarrow>
             Inr (foldl (\<lambda>im i. draw_text lib im
                           ((int canvas_width - text_width lib font (lines ! i)) div 2,
                            y_start + int i * pitch)
                           (lines ! i) font
                           (case text_color st of (r, g, b) \<Rightarrow> (r, g, b, 255)))
                    canvas [0..<length lines]))"
  unfolding generate_thumbnail_unfold canvas_of_def Let_def
  by (cases "apply_overlay lib st (canvas_width, canvas_height)
                (base_image lib st (canvas_width, canvas_height))") simp_all

lemma example_text_width:
  "text_width (example_pil files) (origin, sz) s = sz * int (length s)"
  by (simp add: text_width_def example_pil_def)

lemma example_truetype:
  "truetype (example_pil files) path sz =
     (if path \<in> set files then Inr (Some path, sz)
      else Inl (PyException ''cannot open resource''))"
  by (simp add: example_pil_def)

lemma spacing_60_30: "line_spacing_of 60 (fl 53 (3 / 10)) = 18"
  by (simp add: line_spacing_of_def float_eval)

lemma wide_margin_font:
  "fst (get_pil_font (example_pil [''Impact'']) wide_margin_state ''Impact'' 60)
     = (Some ''Impact'', 60)"
  by (simp add: get_pil_font_def wide_margin_state_def initial_state_def example_truetype)

lemma wide_margin_title: "title_of wide_margin_state 1 = ''Week 1 Overview''"
  by (simp add: title_of_def wide_margin_state_def initial_state_def str_replace_def str_int_1)

lemma wide_margin_lines:
  "wrap_text (example_pil [''Impact'']) ''Week 1 Overview'' (Some ''Impact'', 60) 800
     = [''Week 1'', ''Overview'']"
  by (simp add: wrap_text_def wrap_step_def str_split_def isspace_def example_text_width
      Let_def)

text \<open>
  C6. Rendering draws line \<open>i\<close> of the wrapped title at the horizontal position
  \<open>(canvas_width - line_width) div 2\<close>, computed from the measured width of that line
  alone, so each line is centred by itself; the margins left and right of a line differ
  by at most one pixel. The same holds of the drawing loop for any lines and width.
\<close>

theorem lines_centred_horizontally:
  "fst (foldl (draw_line lib font color width font_size line_spacing) (img, y_position) lines)
     = foldl (\<lambda>im i. draw_text lib im
                ((width - text_width lib font (lines ! i)) div 2,
                 y_position + int i * (font_size + line_spacing))
                (lines ! i) font color)
         img [0..<length lines]
   \<and> (\<forall>i < length lines.
         (let line_width = text_width lib font (lines ! i);
              x_position = (width - line_width) div 2
          in 0 \<le> (width - (x_position + line_width)) - x_position
             \<and> (width - (x_position + line_width)) - x_position \<le> 1))
   \<and> canvas_of (generate_thumbnail lib st number canvas_width canvas_height) =
       (let title_size = font_size_slider st;
            title_font = fst (get_pil_font lib st (font_combo st) title_size);
            title_lines = wrap_text lib (title_of st number) title_font
                      (int canvas_width - text_margins st * 2);
            spacing = line_spacing_of title_size (line_spacing_factor st);
            pitch = title_size + spacing;
            block_height = pitch * int (length title_lines) - spacing;
            y_start = (int canvas_height - block_height) div 2
        in case apply_overlay lib st (canvas_width, canvas_height)
                  (base_image lib st (canvas_width, canvas_height)) of
             Inl e \<Rightarrow> Inl e
           | Inr canvas \<Rightarrow>
               Inr (foldl (\<lambda>im i. draw_text lib im
                             ((int canvas_width - text_width lib title_font (title_lines ! i)) div 2,
                              y_start + int i * pitch)
                             (title_lines ! i) title_font
                             (case text_color st of (r, g, b) \<Rightarrow> (r, g, b, 255)))
                      canvas [0..<length title_lines]))
   \<and> (let title_font = fst (get_pil_font lib st (font_combo st) (font_size_slider st));
           title_lines = wrap_text lib (title_of st number) title_font
                      (int canvas_width - text_margins st * 2)
       in \<forall>i < length title_lines.
            (let line_width = text_width lib title_font (title_lines ! i);
                 x_position = (int canvas_width - line_width) div 2
             in 0 \<le> (int canvas_width - (x_position + line_width)) - x_position
                \<and> (int canvas_width - (x_position + line_width)) - x_position \<le> 1))"
proof -
  note b = draw_loop_centred[of lib font color width font_size line_spacing img y_position lines]
  have c: "canvas_of (generate_thumbnail lib st number canvas_width canvas_height) =
       (let title_size = font_size_slider st;
            title_font = fst (get_pil_font lib st (font_combo st) title_size);
            title_lines = wrap_text lib (title_of st number) title_font
                      (int canvas_width - text_margins st * 2);
            spacing = line_spacing_of title_size (line_spacing_factor st);
            pitch = title_size + spacing;
            block_height = pitch * int (length title_lines) - spacing;
            y_start = (int canvas_height - block_height) div 2
        in case apply_overlay lib st (canvas_width, canvas_height)
                  (base_image lib st (canvas_width, canvas_height)) of
             Inl e \<Rightarrow> Inl e
           | Inr canvas \<Rightarrow>
               Inr (foldl (\<lambda>im i. draw_text lib im
                             ((int canvas_width - text_width lib title_font (title_lines ! i)) div 2,
                              y_start + int i * pitch)
                             (title_lines ! i) title_font
                             (case text_color st of (r, g, b) \<Rightarrow> (r, g, b, 255)))
                      canvas [0..<length title_lines]))"
    by (rule canvas_of_generate_thumbnail)
  have d: "let title_font = fst (get_pil_font lib st (font_combo st) (font_size_slider st));
           title_lines = wrap_text lib (title_of st number) title_font
                      (int canvas_width - text_margins st * 2)
       in \<forall>i < length title_lines.
            (let line_width = text_width lib title_font (title_lines ! i);
                 x_position = (int canvas_width - line_width) div 2
             in 0 \<le> (int canvas_width - (x_position + line_width)) - x_position
                \<and> (int canvas_width - (x_position + line_width)) - x_position \<le> 1)"
    unfolding Let_def using centred_margins by blast
  show ?thesis
    by (rule conjI[OF b[THEN conjunct1] conjI[OF b[THEN conjunct2] conjI[OF c d]]])
qed

theorem lines_centred_horizontally_witness:
  "fst (foldl (draw_line (example_pil []) (None, 10) (255, 255, 255, 255) 1201 10 3)
          (Image_new (2, 1) (0, 0, 0, 255), 100) [''aa bb'', ''d''])
     = draw_text (example_pil [])
         (draw_text (example_pil []) (Image_new (2, 1) (0, 0, 0, 255)) (575, 100) ''aa bb''
            (None, 10) (255, 255, 255, 255))
         (595, 113) ''d'' (None, 10) (255, 255, 255, 255)
   \<and> text_width (example_pil []) (None, 10) ''aa bb'' = 50
   \<and> (1201 - (575 + 50)) - 575 = (1 :: int)
   \<and> canvas_of (generate_thumbnail (example_pil [''Impact'']) wide_margin_state 1 1200 675)
       = Inr (draw_text (example_pil [''Impact''])
                (draw_text (example_pil [''Impact''])
                   (Image_new (1200, 675) (215, 63, 9, 255))
                   (420, 268) ''Week 1'' (Some ''Impact'', 60) (255, 255, 255, 255))
                (360, 346) ''Overview'' (Some ''Impact'', 60) (255, 255, 255, 255))
   \<and> text_width (example_pil [''Impact'']) (Some ''Impact'', 60) ''Week 1'' = 360
   \<and> text_width (example_pil [''Impact'']) (Some ''Impact'', 60) ''Overview'' = 480"
proof -
  have w: "text_width (example_pil []) (None, 10) ''aa bb'' = 50"
    "text_width (example_pil []) (None, 10) ''d'' = 10"
    by (simp_all add: example_text_width)
  have u: "[0..<length [''aa bb'', ''d'']] = [0, 1]"
    by (simp add: upt_rec)
  note inst = lines_centred_horizontally[where lib = "example_pil []" and font = "(None, 10)"
      and color = "(255, 255, 255, 255)" and width = 1201 and font_size = 10
      and line_spacing = 3 and img = "Image_new (2, 1) (0, 0, 0, 255)" and y_position = 100
      and lines = "[''aa bb'', ''d'']" and st = wide_margin_state and number = 1
      and canvas_width = 1200 and canvas_height = 675]
  from inst have "fst (foldl (draw_line (example_pil []) (None, 10) (255, 255, 255, 255) 1201 10 3)
          (Image_new (2, 1) (0, 0, 0, 255), 100) [''aa bb'', ''d''])
     = foldl (\<lambda>im i. draw_text (example_pil []) im
                ((1201 - text_width (example_pil []) (None, 10) ([''aa bb'', ''d''] ! i)) div 2,
                 100 + int i * (10 + 3))
                ([''aa bb'', ''d''] ! i) (None, 10) (255, 255, 255, 255))
         (Image_new (2, 1) (0, 0, 0, 255)) [0..<length [''aa bb'', ''d'']]"
    by (rule conjunct1)
  then have a: "fst (foldl (draw_line (example_pil []) (None, 10) (255, 255, 255, 255) 1201 10 3)
          (Image_new (2, 1) (0, 0, 0, 255), 100) [''aa bb'', ''d''])
     = draw_text (example_pil [])
         (draw_text (example_pil []) (Image_new (2, 1) (0, 0, 0, 255)) (575, 100) ''aa bb''
            (None, 10) (255, 255, 255, 255))
         (595, 113) ''d'' (None, 10) (255, 255, 255, 255)"
    unfolding u using w by simp
  note inst2 = lines_centred_horizontally[where lib = "example_pil [''Impact'']"
      and font = "(None, 10)" and color = "(255, 255, 255, 255)" and width = 1201
      and font_size = 10 and line_spacing = 3 and img = "Image_new (2, 1) (0, 0, 0, 255)"
      and y_position = 100 and lines = "[''aa bb'', ''d'']" and st = wide_margin_state
      and number = 1 and canvas_width = 1200 and canvas_height = 675,
      THEN conjunct2, THEN conjunct2, THEN conjunct1]
  have f: "font_size_slider wide_margin_state = 60" "font_combo wide_margin_state = ''Impact''"
    "text_margins wide_margin_state = 200"
    "line_spacing_factor wide_margin_state = fl 53 (3 / 10)"
    "text_color wide_margin_state = (255, 255, 255)"
    by (simp_all add: wide_margin_state_def initial_state_def)
  have o: "apply_overlay (example_pil [''Impact'']) wide_margin_state (1200, 675)
      (base_image (example_pil [''Impact'']) wide_margin_state (1200, 675))
      = Inr (Image_new (1200, 675) (215, 63, 9, 255))"
    by (simp add: apply_overlay_def base_image_def wide_margin_state_def initial_state_def)
  have u2: "[0..<length [''Week 1'', ''Overview'']] = [0, 1]"
    by (simp add: upt_rec)
  have c: "canvas_of (generate_thumbnail (example_pil [''Impact'']) wide_margin_state 1 1200 675)
       = Inr (draw_text (example_pil [''Impact''])
                (draw_text (example_pil [''Impact''])
                   (Image_new (1200, 675) (215, 63, 9, 255))
                   (420, 268) ''Week 1'' (Some ''Impact'', 60) (255, 255, 255, 255))
                (360, 346) ''Overview'' (Some ''Impact'', 60) (255, 255, 255, 255))"
    unfolding inst2 Let_def f wide_margin_font wide_margin_title
    using wide_margin_lines o u2
    by (simp add: spacing_60_30 example_text_width)
  show ?thesis using a w c by (simp add: example_text_width)
qed

text \<open>
  C2, as the code has it. The spacing between lines is \<open>int(font_size * factor)\<close>, the
  float product truncated towards zero, not rounded. With that spacing the pitch is
  \<open>font_size + line_spacing\<close>, the height of the block is the pitch times the number of
  lines less one spacing, the block starts at \<open>(height - block_height) div 2\<close>, line \<open>i\<close>
  is drawn \<open>i\<close> pitches below the start, and the margins above and below the block
  differ by at most one pixel.
\<close>

theorem text_block_placement:
  "generate_thumbnail lib st number width height =
     (let font_size = font_size_slider st;
          font = fst (get_pil_font lib st (font_combo st) font_size);
          lines = wrap_text lib (title_of st number) font (int width - text_margins st * 2);
          line_spacing = py_int (py_int_times_float font_size (line_spacing_factor st));
          pitch = font_size + line_spacing;
          block_height = pitch * int (length lines) - line_spacing;
          y_start = (int height - block_height) div 2
      in case apply_overlay lib st (width, height) (base_image lib st (width, height)) of
           Inl e \<Rightarrow> Inl e
         | Inr img \<Rightarrow>
             Inr ((foldl (\<lambda>im i. draw_text lib im
                            ((int width - text_width lib font (lines ! i)) div 2,
                             y_start + int i * pitch)
                            (lines ! i) font
                            (case text_color st of (r, g, b) \<Rightarrow> (r, g, b, 255)))
                     img [0..<length lines],
                   filename_title_of st number),
                  snd (get_pil_font lib st (font_combo st) font_size)))
   \<and> (let block_height = text_height_of n font_size line_spacing;
           y_start = (int height - block_height) div 2
       in 0 \<le> (int height - (y_start + block_height)) - y_start
          \<and> (int height - (y_start + block_height)) - y_start \<le> 1)"
proof
  show "generate_thumbnail lib st number width height =
     (let font_size = font_size_slider st;
          font = fst (get_pil_font lib st (font_combo st) font_size);
          lines = wrap_text lib (title_of st number) font (int width - text_margins st * 2);
          line_spacing = py_int (py_int_times_float font_size (line_spacing_factor st));
          pitch = font_size + line_spacing;
          block_height = pitch * int (length lines) - line_spacing;
          y_start = (int height - block_height) div 2
      in case apply_overlay lib st (width, height) (base_image lib st (width, height)) of
           Inl e \<Rightarrow> Inl e
         | Inr img \<Rightarrow>
             Inr ((foldl (\<lambda>im i. draw_text lib im
                            ((int width - text_width lib font (lines ! i)) div 2,
                             y_start + int i * pitch)
                            (lines ! i) font
                            (case text_color st of (r, g, b) \<Rightarrow> (r, g, b, 255)))
                     img [0..<length lines],
                   filename_title_of st number),
                  snd (get_pil_font lib st (font_combo st) font_size)))"
    using generate_thumbnail_unfold[of lib st number width height]
    by (simp add: line_spacing_of_def)
next
  show "let block_height = text_height_of n font_size line_spacing;
           y_start = (int height - block_height) div 2
       in 0 \<le> (int height - (y_start + block_height)) - y_start
          \<and> (int height - (y_start + block_height)) - y_start \<le> 1"
    unfolding Let_def by presburger
qed

lemma spacing_16_30:
  "line_spacing_of 16 (fl 53 (3 / 10)) = 4"
  by (simp add: line_spacing_of_def float_eval)

lemma round_16_30:
  "round_half_even (py_int_times_float 16 (fl 53 (3 / 10))) = 5"
  by (simp add: float_eval)

text \<open>
  C2 as stated fails: with font size 16 and the spacing slider at 30 the product is just
  below 4.8, so the code's spacing is 4 and the pitch 20, where rounding would give 21.
\<close>

theorem pitch_rounds_counterexample:
  "line_spacing_factor (update_line_spacing initial_state 30) = fl 53 (3 / 10)
   \<and> 16 + line_spacing_of 16 (line_spacing_factor (update_line_spacing initial_state 30)) = 20
   \<and> 16 + round_half_even
        (py_int_times_float 16 (line_spacing_factor (update_line_spacing initial_state 30))) = 21"
  by (simp add: update_line_spacing_def spacing_16_30 round_16_30)

subsection \<open>The course name\<close>

lemma get_pil_font_course:
  "get_pil_font lib (st\<lparr>course_input := c\<rparr>) name sz =
     (fst (get_pil_font lib st name sz), (snd (get_pil_font lib st name sz))\<lparr>course_input := c\<rparr>)"
  by (simp add: get_pil_font_def Let_def split: option.splits sum.splits)

text \<open>
  C10. The course name does not reach the canvas: with any other course name, and all
  else equal, rendering gives the same image (or fails with the same exception).
\<close>

theorem canvas_independent_of_course_name:
  "canvas_of (generate_thumbnail lib (st\<lparr>course_input := c\<rparr>) number width height)
     = canvas_of (generate_thumbnail lib st number width height)"
proof -
  have b: "base_image lib (st\<lparr>course_input := c\<rparr>) (width, height)
      = base_image lib st (width, height)"
    by (simp add: base_image_def split: option.splits)
  have o: "\<And>img. apply_overlay lib (st\<lparr>course_input := c\<rparr>) (width, height) img
      = apply_overlay lib st (width, height) img"
    by (simp add: apply_overlay_def split: option.splits)
  have t: "title_of (st\<lparr>course_input := c\<rparr>) number = title_of st number"
    by (simp add: title_of_def)
  show ?thesis
    unfolding generate_thumbnail_unfold canvas_of_def Let_def b o t get_pil_font_course
    by (cases "apply_overlay lib st (width, height) (base_image lib st (width, height))")
      simp_all
qed

subsection \<open>Pattern overlay\<close>

lemma fl_zero: "fl prec 0 = 0"
  by (simp add: fl_def)

lemma enhance_zero: "Brightness_enhance (py_truediv 0 100) a = 0"
  by (simp add: Brightness_enhance_def py_truediv_def fl_zero blend_value_def)

lemma apply_opacity_zero:
  "apply_opacity 0 pat = pat\<lparr>pixels := map (\<lambda>(r, g, b, a). (r, g, b, 0)) (pixels pat)\<rparr>"
  by (simp add: apply_opacity_def enhance_zero)

lemma composite_transparent: "composite_pixel dst (r, g, b, 0) = dst"
  by (simp add: composite_pixel_def split: prod.splits)

lemma map2_composite_transparent:
  "length xs \<le> length ys \<Longrightarrow>
     map2 composite_pixel xs (map (\<lambda>(r, g, b, a). (r, g, b, 0)) ys) = xs"
proof (induction xs arbitrary: ys)
  case Nil
  then show ?case by simp
next
  case (Cons x xs)
  then obtain y ys' where ys: "ys = y # ys'" by (cases ys) auto
  obtain r g b a where y: "y = (r, g, b, a)" by (cases y) auto
  show ?case using Cons ys y by (simp add: composite_transparent)
qed

lemma composite_opacity_zero:
  assumes "well_sized img sz" and "well_sized pat sz"
  shows "alpha_composite img (apply_opacity 0 pat) = Inr img"
  using assms
  by (simp add: alpha_composite_def apply_opacity_zero well_sized_def
      map2_composite_transparent)

lemma well_sized_Image_new: "well_sized (Image_new sz c) sz"
  by (simp add: well_sized_def Image_new_def)

lemma pil_sized_resize: "pil_sized lib \<Longrightarrow> well_sized (resize lib im sz) sz"
  unfolding pil_sized_def by blast

lemma pil_sized_fit: "pil_sized lib \<Longrightarrow> well_sized (fit lib im sz) sz"
  unfolding pil_sized_def by blast

lemma well_sized_base_image:
  "pil_sized lib \<Longrightarrow> well_sized (base_image lib st sz) sz"
  by (auto simp: base_image_def pil_sized_fit well_sized_Image_new
      split: option.splits prod.splits)

lemma isize_apply_opacity: "isize (apply_opacity opacity pat) = isize pat"
  by (simp add: apply_opacity_def)

lemma apply_overlay_ok:
  assumes "pil_sized lib" and "well_sized img sz"
  shows "\<exists>img'. apply_overlay lib st sz img = Inr img'"
proof (cases "current_pattern st")
  case None
  then show ?thesis by (simp add: apply_overlay_def)
next
  case (Some p)
  have "isize (resize lib p sz) = sz"
    using pil_sized_resize[OF assms(1), of p sz] by (simp add: well_sized_def)
  then show ?thesis
    using Some assms(2)
    by (simp add: apply_overlay_def alpha_composite_def isize_apply_opacity well_sized_def)
qed

lemma generate_thumbnail_ok:
  assumes "pil_sized lib"
  shows "\<exists>img. generate_thumbnail lib st number width height =
     Inr ((img, filename_title_of st number),
          snd (get_pil_font lib st (font_combo st) (font_size_slider st)))"
proof -
  obtain img where "apply_overlay lib st (width, height) (base_image lib st (width, height))
      = Inr img"
    using apply_overlay_ok[OF assms well_sized_base_image[OF assms]] by blast
  then show ?thesis by (simp add: generate_thumbnail_unfold Let_def)
qed

lemma get_pil_font_pattern:
  "fst (get_pil_font lib (st\<lparr>current_pattern := p, pattern_opacity := q\<rparr>) name sz)
     = fst (get_pil_font lib st name sz)"
  "fst (get_pil_font lib (st\<lparr>current_pattern := p\<rparr>) name sz)
     = fst (get_pil_font lib st name sz)"
  by (simp_all add: get_pil_font_def Let_def split: option.splits sum.splits)

text \<open>
  C5. With a pattern selected and opacity 0 the rendered canvas is the canvas rendered
  with no pattern: the scaled alpha of every pattern pixel is 0, and compositing such a
  pattern over any canvas of the same size returns that canvas.
\<close>

theorem overlay_opacity_zero:
  assumes "pil_sized lib"
  shows "canvas_of (generate_thumbnail lib
              (st\<lparr>current_pattern := Some p, pattern_opacity := 0\<rparr>) number width height)
           = canvas_of (generate_thumbnail lib
              (st\<lparr>current_pattern := None\<rparr>) number width height)
       \<and> (\<forall>img. well_sized img (width, height) \<longrightarrow>
             apply_overlay lib (st\<lparr>current_pattern := Some p, pattern_opacity := 0\<rparr>)
               (width, height) img = Inr img)
       \<and> (\<forall>px \<in> set (pixels (apply_opacity 0 pat)). snd (snd (snd px)) = 0)"
proof (intro conjI allI impI ballI)
  have ov: "\<And>img. well_sized img (width, height) \<Longrightarrow>
      apply_overlay lib (st\<lparr>current_pattern := Some p, pattern_opacity := 0\<rparr>)
        (width, height) img = Inr img"
  proof -
    fix img assume w: "well_sized img (width, height)"
    have "well_sized (resize lib p (width, height)) (width, height)"
      using assms by (rule pil_sized_resize)
    then show "apply_overlay lib (st\<lparr>current_pattern := Some p, pattern_opacity := 0\<rparr>)
        (width, height) img = Inr img"
      using composite_opacity_zero[OF w] by (simp add: apply_overlay_def)
  qed
  {
    fix img assume "well_sized img (width, height)"
    then show "apply_overlay lib (st\<lparr>current_pattern := Some p, pattern_opacity := 0\<rparr>)
        (width, height) img = Inr img"
      by (rule ov)
  }
  have b: "base_image lib (st\<lparr>current_pattern := Some p, pattern_opacity := 0\<rparr>) (width, height)
      = base_image lib st (width, height)"
    "base_image lib (st\<lparr>current_pattern := None\<rparr>) (width, height)
      = base_image lib st (width, height)"
    by (simp_all add: base_image_def split: option.splits)
  have o1: "apply_overlay lib (st\<lparr>current_pattern := Some p, pattern_opacity := 0\<rparr>)
      (width, height) (base_image lib st (width, height)) = Inr (base_image lib st (width, height))"
    using ov[OF well_sized_base_image[OF assms]] .
  have o2: "apply_overlay lib (st\<lparr>current_pattern := None\<rparr>)
      (width, height) (base_image lib st (width, height)) = Inr (base_image lib st (width, height))"
    by (simp add: apply_overlay_def)
  have t: "title_of (st\<lparr>current_pattern := Some p, pattern_opacity := 0\<rparr>) number
        = title_of st number"
      "title_of (st\<lparr>current_pattern := None\<rparr>) number = title_of st number"
    by (simp_all add: title_of_def)
  show "canvas_of (generate_thumbnail lib
              (st\<lparr>current_pattern := Some p, pattern_opacity := 0\<rparr>) number width height)
           = canvas_of (generate_thumbnail lib
              (st\<lparr>current_pattern := None\<rparr>) number width height)"
    unfolding generate_thumbnail_unfold Let_def b o1 o2 t get_pil_font_pattern canvas_of_def
    by simp
  {
    fix px assume "px \<in> set (pixels (apply_opacity 0 pat))"
    then show "snd (snd (snd px)) = 0"
      by (auto simp: apply_opacity_zero)
  }
qed

lemma pil_sized_example: "pil_sized (example_pil files)"
  by (simp add: pil_sized_def well_sized_def example_pil_def Image_new_def)

theorem overlay_opacity_zero_witness:
  "pil_sized (example_pil [])
   \<and> canvas_of (generate_thumbnail (example_pil [])
        (initial_state\<lparr>current_pattern := Some (Image_new (1, 1) (10, 20, 30, 200)),
           pattern_opacity := 0\<rparr>) 1 2 1)
     = canvas_of (generate_thumbnail (example_pil [])
        (initial_state\<lparr>current_pattern := None\<rparr>) 1 2 1)
   \<and> apply_overlay (example_pil [])
        (initial_state\<lparr>current_pattern := Some (Image_new (1, 1) (10, 20, 30, 200)),
           pattern_opacity := 0\<rparr>) (2, 1) (Image_new (2, 1) (215, 63, 9, 255))
     = Inr (Image_new (2, 1) (215, 63, 9, 255))"
proof -
  note inst = overlay_opacity_zero[OF pil_sized_example, where files1 = "[]"
      and st = initial_state and p = "Image_new (1, 1) (10, 20, 30, 200)"
      and number = 1 and width = 2 and height = 1]
  from inst have a: "canvas_of (generate_thumbnail (example_pil [])
        (initial_state\<lparr>current_pattern := Some (Image_new (1, 1) (10, 20, 30, 200)),
           pattern_opacity := 0\<rparr>) 1 2 1)
     = canvas_of (generate_thumbnail (example_pil [])
        (initial_state\<lparr>current_pattern := None\<rparr>) 1 2 1)"
    by (rule conjunct1)
  from inst have b: "apply_overlay (example_pil [])
        (initial_state\<lparr>current_pattern := Some (Image_new (1, 1) (10, 20, 30, 200)),
           pattern_opacity := 0\<rparr>) (2, 1) (Image_new (2, 1) (215, 63, 9, 255))
     = Inr (Image_new (2, 1) (215, 63, 9, 255))"
    using well_sized_Image_new[of "(2, 1)" "(215, 63, 9, 255)"] by blast
  show ?thesis using pil_sized_example a b by blast
qed

subsection \<open>Font fallback\<close>

lemma get_pil_font_cached:
  "pil_fonts (snd (get_pil_font lib st name sz)) (name @ ''_'' @ str_int sz)
     = Some (fst (get_pil_font lib st name sz))"
  by (simp add: get_pil_font_def Let_def split: option.splits sum.splits)

lemma get_pil_font_again:
  "get_pil_font lib (snd (get_pil_font lib st name sz)) name sz
     = (fst (get_pil_font lib st name sz), snd (get_pil_font lib st name sz))"
  using get_pil_font_cached[of lib st name sz]
  by (simp add: get_pil_font_def[of lib "snd (get_pil_font lib st name sz)"] Let_def)

lemma get_pil_font_fallback:
  assumes "load_fails lib st name sz"
  shows "fst (get_pil_font lib st name sz) = load_default lib"
    and "\<exists>e. snd (get_pil_font lib st name sz) =
           st\<lparr>pil_fonts := (pil_fonts st)(name @ ''_'' @ str_int sz \<mapsto> load_default lib),
              stdout := stdout st @ [''Error loading font '' @ name @ '': '' @ message e]\<rparr>"
  using assms
  by (auto simp: load_fails_def get_pil_font_def Let_def isl_def split: option.splits)

lemma get_pil_font_stdout:
  "load_fails lib st name sz \<longleftrightarrow> stdout (snd (get_pil_font lib st name sz)) \<noteq> stdout st"
  by (auto simp: load_fails_def get_pil_font_def Let_def isl_def
      split: option.splits sum.splits)

lemma get_pil_font_loaded:
  assumes "pil_fonts st (name @ ''_'' @ str_int sz) = None"
    and "\<not> load_fails lib st name sz"
  shows "\<exists>path. truetype lib path sz = Inr (fst (get_pil_font lib st name sz))"
  using assms
  by (auto simp: load_fails_def get_pil_font_def Let_def isl_def
      split: option.splits sum.splits)

lemma generate_thumbnail_stdout:
  assumes "generate_thumbnail lib st number width height = Inr ((img, title), st')"
  shows "load_fails lib st (font_combo st) (font_size_slider st) \<longleftrightarrow> stdout st' \<noteq> stdout st"
proof (cases "apply_overlay lib st (width, height) (base_image lib st (width, height))")
  case (Inl e)
  with assms show ?thesis by (simp add: generate_thumbnail_unfold Let_def)
next
  case (Inr im)
  with assms have "st' = snd (get_pil_font lib st (font_combo st) (font_size_slider st))"
    by (simp add: generate_thumbnail_unfold Let_def)
  then show ?thesis using get_pil_font_stdout by simp
qed

text \<open>
  C9. Looking a font up never fails: when the font cannot be loaded the default font is
  returned and cached under the key asked for, so that the next lookup returns it again,
  and rendering returns a canvas whatever the font name is (with a library whose
  resizing keeps to the size asked for). The fallback can be detected: a line is
  printed exactly when a lookup, or the lookup of a rendering, falls back, so the
  standard output has grown exactly then; and, since a font loaded from a file is never
  the built-in default font, a lookup that was not cached returns the default font
  exactly when it fell back.
\<close>

theorem get_pil_font_falls_back:
  "(load_fails lib st name sz \<longrightarrow>
       fst (get_pil_font lib st name sz) = load_default lib
       \<and> (\<exists>e. stdout (snd (get_pil_font lib st name sz))
               = stdout st @ [''Error loading font '' @ name @ '': '' @ message e]))
   \<and> pil_fonts (snd (get_pil_font lib st name sz)) (name @ ''_'' @ str_int sz)
       = Some (fst (get_pil_font lib st name sz))
   \<and> get_pil_font lib (snd (get_pil_font lib st name sz)) name sz
       = (fst (get_pil_font lib st name sz), snd (get_pil_font lib st name sz))
   \<and> (pil_sized lib \<longrightarrow>
        (\<exists>img title st'. generate_thumbnail lib st number width height = Inr ((img, title), st')
           \<and> (load_fails lib st (font_combo st) (font_size_slider st)
                \<longleftrightarrow> stdout st' \<noteq> stdout st)))
   \<and> (load_fails lib st name sz
        \<longleftrightarrow> stdout (snd (get_pil_font lib st name sz)) \<noteq> stdout st)
   \<and> ((\<forall>path s font. truetype lib path s = Inr font \<longrightarrow> font \<noteq> load_default lib)
        \<and> pil_fonts st (name @ ''_'' @ str_int sz) = None \<longrightarrow>
        (load_fails lib st name sz
          \<longleftrightarrow> fst (get_pil_font lib st name sz) = load_default lib))"
proof (intro conjI impI)
  assume f: "load_fails lib st name sz"
  show "fst (get_pil_font lib st name sz) = load_default lib"
    using get_pil_font_fallback(1)[OF f] .
  obtain e where e: "snd (get_pil_font lib st name sz) =
           st\<lparr>pil_fonts := (pil_fonts st)(name @ ''_'' @ str_int sz \<mapsto> load_default lib),
              stdout := stdout st @ [''Error loading font '' @ name @ '': '' @ message e]\<rparr>"
    using get_pil_font_fallback(2)[OF f] by blast
  show "\<exists>e. stdout (snd (get_pil_font lib st name sz))
               = stdout st @ [''Error loading font '' @ name @ '': '' @ message e]"
    using e by auto
next
  show "pil_fonts (snd (get_pil_font lib st name sz)) (name @ ''_'' @ str_int sz)
       = Some (fst (get_pil_font lib st name sz))"
    by (rule get_pil_font_cached)
next
  show "get_pil_font lib (snd (get_pil_font lib st name sz)) name sz
       = (fst (get_pil_font lib st name sz), snd (get_pil_font lib st name sz))"
    by (rule get_pil_font_again)
next
  assume "pil_sized lib"
  then obtain img where g: "generate_thumbnail lib st number width height =
     Inr ((img, filename_title_of st number),
          snd (get_pil_font lib st (font_combo st) (font_size_slider st)))"
    using generate_thumbnail_ok by blast
  show "\<exists>img title st'. generate_thumbnail lib st number width height = Inr ((img, title), st')
           \<and> (load_fails lib st (font_combo st) (font_size_slider st)
                \<longleftrightarrow> stdout st' \<noteq> stdout st)"
    using g generate_thumbnail_stdout[OF g] by blast
next
  show "load_fails lib st name sz
        \<longleftrightarrow> stdout (snd (get_pil_font lib st name sz)) \<noteq> stdout st"
    by (rule get_pil_font_stdout)
next
  assume h: "(\<forall>path s font. truetype lib path s = Inr font \<longrightarrow> font \<noteq> load_default lib)
        \<and> pil_fonts st (name @ ''_'' @ str_int sz) = None"
  show "load_fails lib st name sz
          \<longleftrightarrow> fst (get_pil_font lib st name sz) = load_default lib"
  proof
    assume "load_fails lib st name sz"
    then show "fst (get_pil_font lib st name sz) = load_default lib"
      by (rule get_pil_font_fallback(1))
  next
    assume d: "fst (get_pil_font lib st name sz) = load_default lib"
    show "load_fails lib st name sz"
    proof (rule ccontr)
      assume "\<not> load_fails lib st name sz"
      then obtain path where "truetype lib path sz = Inr (fst (get_pil_font lib st name sz))"
        using get_pil_font_loaded h by blast
      then show False using h d by auto
    qed
  qed
qed

lemma str_int_10: "str_int 10 = ''10''"
  by code_simp

lemma titled_fails: "load_fails (example_pil []) titled_state ''Title'' 10"
  by (simp add: load_fails_def titled_state_def initial_state_def example_pil_def)

lemma titled_loads:
  "\<not> load_fails (example_pil [''data/Title.ttf'']) titled_state ''Title'' 10"
  by (simp add: load_fails_def titled_state_def initial_state_def example_pil_def)

lemma example_fonts_distinct:
  "\<forall>path s font. truetype (example_pil files) path s = Inr font
     \<longrightarrow> font \<noteq> load_default (example_pil files)"
  by (simp add: example_pil_def)

theorem get_pil_font_falls_back_witness:
  "load_fails (example_pil []) titled_state ''Title'' 10
   \<and> fst (get_pil_font (example_pil []) titled_state ''Title'' 10) = (None, 10)
   \<and> stdout (snd (get_pil_font (example_pil []) titled_state ''Title'' 10))
       = [''Error loading font Title: cannot open resource'']
   \<and> pil_fonts (snd (get_pil_font (example_pil []) titled_state ''Title'' 10)) ''Title_10''
       = Some (None, 10)
   \<and> \<not> load_fails (example_pil [''data/Title.ttf'']) titled_state ''Title'' 10
   \<and> fst (get_pil_font (example_pil [''data/Title.ttf'']) titled_state ''Title'' 10)
       \<noteq> (None, 10)
   \<and> stdout (snd (get_pil_font (example_pil [''data/Title.ttf'']) titled_state ''Title'' 10))
       = stdout titled_state
   \<and> pil_sized (example_pil [])
   \<and> isl (generate_thumbnail (example_pil []) titled_state 1 2 1) = False"
proof -
  note inst = get_pil_font_falls_back[of "example_pil []" titled_state "''Title''" 10 1 2 1]
  note inst2 = get_pil_font_falls_back[of "example_pil [''data/Title.ttf'']" titled_state
      "''Title''" 10 1 2 1]
  have d: "load_default (example_pil []) = (None, 10)"
    "load_default (example_pil [''data/Title.ttf'']) = (None, 10)"
    by (simp_all add: example_pil_def)
  have n: "pil_fonts titled_state (''Title'' @ ''_'' @ str_int 10) = None"
    by (simp add: titled_state_def initial_state_def)
  from inst titled_fails have a: "fst (get_pil_font (example_pil []) titled_state ''Title'' 10)
      = (None, 10)"
    unfolding d by blast
  have o: "stdout (snd (get_pil_font (example_pil []) titled_state ''Title'' 10))
       = [''Error loading font Title: cannot open resource'']"
    by (simp add: get_pil_font_def titled_state_def initial_state_def example_pil_def)
  from inst have "pil_fonts (snd (get_pil_font (example_pil []) titled_state ''Title'' 10))
       (''Title'' @ ''_'' @ str_int 10)
         = Some (fst (get_pil_font (example_pil []) titled_state ''Title'' 10))"
    by blast
  then have b: "pil_fonts (snd (get_pil_font (example_pil []) titled_state ''Title'' 10)) ''Title_10''
       = Some (None, 10)"
    using a by (simp add: str_int_10)
  from inst2 example_fonts_distinct[of "[''data/Title.ttf'']"] n titled_loads
  have e: "fst (get_pil_font (example_pil [''data/Title.ttf'']) titled_state ''Title'' 10)
       \<noteq> (None, 10)"
    unfolding d by blast
  from inst2 titled_loads
  have f: "stdout (snd (get_pil_font (example_pil [''data/Title.ttf'']) titled_state ''Title'' 10))
       = stdout titled_state"
    by blast
  from inst pil_sized_example
  have "\<exists>r. generate_thumbnail (example_pil []) titled_state 1 2 1 = Inr r"
    by blast
  then have c: "isl (generate_thumbnail (example_pil []) titled_state 1 2 1) = False"
    by auto
  show ?thesis using titled_fails titled_loads a o b e f c pil_sized_example by blast
qed

subsection \<open>Batches and file names\<close>

lemma same_inputs_refl: "same_inputs st st"
  unfolding same_inputs_def
  by (rule exI[of _ "pil_fonts st"], rule exI[of _ "stdout st"]) simp

lemma same_inputs_trans:
  assumes "same_inputs a b" and "same_inputs b c"
  shows "same_inputs a c"
proof -
  obtain f1 o1 where a: "a = b\<lparr>pil_fonts := f1, stdout := o1\<rparr>"
    using assms(1) unfolding same_inputs_def by blast
  obtain f2 o2 where b: "b = c\<lparr>pil_fonts := f2, stdout := o2\<rparr>"
    using assms(2) unfolding same_inputs_def by blast
  have "a = c\<lparr>pil_fonts := f1, stdout := o1\<rparr>" using a b by simp
  then show ?thesis unfolding same_inputs_def by blast
qed

lemma same_inputs_get_pil_font: "same_inputs (snd (get_pil_font lib st name sz)) st"
proof -
  have "snd (get_pil_font lib st name sz)
      = st\<lparr>pil_fonts := pil_fonts (snd (get_pil_font lib st name sz)),
           stdout := stdout (snd (get_pil_font lib st name sz))\<rparr>"
    by (simp add: get_pil_font_def Let_def split: option.splits sum.splits)
  then show ?thesis unfolding same_inputs_def by blast
qed

lemma same_inputs_filename:
  "same_inputs st' st \<Longrightarrow> filename_title_of st' number = filename_title_of st number"
  unfolding same_inputs_def by (auto simp: filename_title_of_def title_of_def)

lemma same_inputs_path:
  "same_inputs st' st \<Longrightarrow> thumbnail_path st' save_dir number = thumbnail_path st save_dir number"
  by (simp add: thumbnail_path_def same_inputs_filename)

lemma generate_thumbnail_result:
  assumes "generate_thumbnail lib st number width height = Inr ((img, title), st')"
  shows "title = filename_title_of st number \<and> same_inputs st' st"
proof (cases "apply_overlay lib st (width, height) (base_image lib st (width, height))")
  case (Inl e)
  with assms show ?thesis by (simp add: generate_thumbnail_unfold Let_def)
next
  case (Inr im)
  with assms have "title = filename_title_of st number"
    and "st' = snd (get_pil_font lib st (font_combo st) (font_size_slider st))"
    by (simp_all add: generate_thumbnail_unfold Let_def)
  then show ?thesis using same_inputs_get_pil_font by simp
qed

lemma batch_loop_saved:
  assumes "batch_loop lib g save_dir start count idxs bs = (r, bs')"
  shows "\<exists>k\<le>length idxs.
           map fst (saved bs') = map fst (saved bs)
             @ map (\<lambda>i. thumbnail_path (app bs) save_dir (start + int i)) (take k idxs)"
  using assms
proof (induction idxs arbitrary: bs)
  case Nil
  then show ?case by simp
next
  case (Cons i rest)
  let ?bs1 = "bs\<lparr>ui_log := ui_log bs @ item_events count i\<rparr>"
  show ?case
  proof (cases "wasCanceled g i")
    case True
    with Cons.prems have "bs' = bs" by simp
    then show ?thesis by (intro exI[of _ 0]) simp
  next
    case nc: False
    show ?thesis
    proof (cases "generate_thumbnail lib (app bs) (start + int i) 1280 720")
      case (Inl e)
      with nc Cons.prems have "bs' = ?bs1"
        by (simp add: Let_def item_events_def)
      then show ?thesis by (intro exI[of _ 0]) simp
    next
      case (Inr res)
      obtain img title st' where res: "res = ((img, title), st')"
        by (cases res) auto
      have t: "title = filename_title_of (app bs) (start + int i)" and si: "same_inputs st' (app bs)"
        using generate_thumbnail_result[of lib "app bs" "start + int i" 1280 720 img title st']
          Inr res by simp_all
      show ?thesis
      proof (cases "save_raises g (path_join save_dir (title @ ''_Thumbnail.png''))")
        case (Some e)
        with nc Inr res Cons.prems have "bs' = ?bs1\<lparr>app := st'\<rparr>"
          by (simp add: Let_def item_events_def)
        then show ?thesis by (intro exI[of _ 0]) simp
      next
        case None
        let ?bs2 = "?bs1\<lparr>app := st',
            saved := saved ?bs1 @ [(path_join save_dir (title @ ''_Thumbnail.png''), img)]\<rparr>"
        from nc Inr res None Cons.prems
        have "batch_loop lib g save_dir start count rest ?bs2 = (r, bs')"
          by (simp add: Let_def item_events_def)
        from Cons.IH[OF this] obtain k where k: "k \<le> length rest"
          "map fst (saved bs') = map fst (saved ?bs2)
             @ map (\<lambda>i. thumbnail_path (app ?bs2) save_dir (start + int i)) (take k rest)"
          by blast
        have p: "\<And>j. thumbnail_path (app ?bs2) save_dir j = thumbnail_path (app bs) save_dir j"
          using same_inputs_path[OF si] by simp
        have "map fst (saved bs') = map fst (saved bs)
             @ map (\<lambda>i. thumbnail_path (app bs) save_dir (start + int i)) (take (Suc k) (i # rest))"
          using k(2) t unfolding p by (simp add: thumbnail_path_def)
        then show ?thesis using k(1) by (intro exI[of _ "Suc k"]) simp
      qed
    qed
  qed
qed

lemma batch_loop_item_ok:
  assumes "pil_sized lib" and "item_ok g (app bs) save_dir start i"
  shows "\<exists>img st'. same_inputs st' (app bs)
     \<and> batch_loop lib g save_dir start count (i # rest) bs =
         batch_loop lib g save_dir start count rest
           (bs\<lparr>ui_log := ui_log bs @ item_events count i, app := st',
               saved := saved bs @ [(thumbnail_path (app bs) save_dir (start + int i), img)]\<rparr>)"
proof -
  obtain img where gen: "generate_thumbnail lib (app bs) (start + int i) 1280 720 =
     Inr ((img, filename_title_of (app bs) (start + int i)),
          snd (get_pil_font lib (app bs) (font_combo (app bs)) (font_size_slider (app bs))))"
    using generate_thumbnail_ok[OF assms(1)] by blast
  let ?st' = "snd (get_pil_font lib (app bs) (font_combo (app bs)) (font_size_slider (app bs)))"
  have "batch_loop lib g save_dir start count (i # rest) bs =
         batch_loop lib g save_dir start count rest
           (bs\<lparr>ui_log := ui_log bs @ item_events count i, app := ?st',
               saved := saved bs @ [(thumbnail_path (app bs) save_dir (start + int i), img)]\<rparr>)"
    using assms(2) gen by (simp add: item_ok_def thumbnail_path_def item_events_def Let_def)
  then show ?thesis using same_inputs_get_pil_font by blast
qed

lemma batch_loop_prefix:
  assumes "pil_sized lib" and "\<forall>i\<in>set pre. item_ok g (app bs) save_dir start i"
  shows "\<exists>bs'. batch_loop lib g save_dir start count (pre @ rest) bs =
           batch_loop lib g save_dir start count rest bs'
       \<and> map fst (saved bs') = map fst (saved bs)
             @ map (\<lambda>i. thumbnail_path (app bs) save_dir (start + int i)) pre
       \<and> ui_log bs' = ui_log bs @ concat (map (item_events count) pre)
       \<and> same_inputs (app bs') (app bs)"
  using assms(2)
proof (induction pre arbitrary: bs)
  case Nil
  show ?case by (rule exI[of _ bs]) (simp add: same_inputs_refl)
next
  case (Cons i pre)
  have ok: "item_ok g (app bs) save_dir start i" using Cons.prems by simp
  obtain img st' where si: "same_inputs st' (app bs)"
    and step: "batch_loop lib g save_dir start count (i # (pre @ rest)) bs =
         batch_loop lib g save_dir start count (pre @ rest)
           (bs\<lparr>ui_log := ui_log bs @ item_events count i, app := st',
               saved := saved bs @ [(thumbnail_path (app bs) save_dir (start + int i), img)]\<rparr>)"
    using batch_loop_item_ok[OF assms(1) ok] by blast
  let ?bs2 = "bs\<lparr>ui_log := ui_log bs @ item_events count i, app := st',
               saved := saved bs @ [(thumbnail_path (app bs) save_dir (start + int i), img)]\<rparr>"
  have p: "\<And>j. thumbnail_path (app ?bs2) save_dir j = thumbnail_path (app bs) save_dir j"
    using same_inputs_path[OF si] by simp
  have "\<forall>j\<in>set pre. item_ok g (app ?bs2) save_dir start j"
    using Cons.prems unfolding item_ok_def p by simp
  from Cons.IH[OF this] obtain bs' where
    a: "batch_loop lib g save_dir start count (pre @ rest) ?bs2 =
           batch_loop lib g save_dir start count rest bs'"
    and b: "map fst (saved bs') = map fst (saved ?bs2)
             @ map (\<lambda>i. thumbnail_path (app ?bs2) save_dir (start + int i)) pre"
    and c: "ui_log bs' = ui_log ?bs2 @ concat (map (item_events count) pre)"
    and d: "same_inputs (app bs') (app ?bs2)"
    by blast
  have d': "same_inputs (app bs') (app bs)"
    using same_inputs_trans[OF d] si by simp
  show ?case
    using step a b c d' unfolding p by (intro exI[of _ bs']) simp
qed

lemma batch_loop_cancel:
  "wasCanceled g k \<Longrightarrow> batch_loop lib g save_dir start count (k # rest) bs = (None, bs)"
  by simp

lemma batch_loop_write_error:
  assumes "pil_sized lib" and "\<not> wasCanceled g k"
    and "save_raises g (thumbnail_path (app bs) save_dir (start + int k)) = Some e"
  shows "\<exists>st'. batch_loop lib g save_dir start count (k # rest) bs =
           (Some e, bs\<lparr>ui_log := ui_log bs @ item_events count k, app := st'\<rparr>)"
proof -
  obtain img where gen: "generate_thumbnail lib (app bs) (start + int k) 1280 720 =
     Inr ((img, filename_title_of (app bs) (start + int k)),
          snd (get_pil_font lib (app bs) (font_combo (app bs)) (font_size_slider (app bs))))"
    using generate_thumbnail_ok[OF assms(1)] by blast
  have "batch_loop lib g save_dir start count (k # rest) bs =
      (Some e, bs\<lparr>ui_log := ui_log bs @ item_events count k,
         app := snd (get_pil_font lib (app bs) (font_combo (app bs))
                  (font_size_slider (app bs)))\<rparr>)"
    using assms(2,3) gen by (simp add: thumbnail_path_def item_events_def Let_def)
  then show ?thesis by blast
qed

lemma upt_split: "k < n \<Longrightarrow> [0..<n] = [0..<k] @ k # [Suc k..<n]"
  by (metis less_imp_add_positive upt_add_eq_append upt_conv_Cons zero_le add_0)

lemma save_thumbnails_outcome:
  assumes "pil_sized lib" and "getExistingDirectory g \<noteq> []"
    and "k \<le> nat (batch_count (app bs))"
    and "\<forall>i<k. item_ok g (app bs) (getExistingDirectory g) (start_number (app bs)) i"
  shows "k = nat (batch_count (app bs)) \<Longrightarrow>
      map fst (saved (save_thumbnails lib g bs)) = map fst (saved bs)
        @ map (\<lambda>i. thumbnail_path (app bs) (getExistingDirectory g)
                 (start_number (app bs) + int i)) [0..<k]
      \<and> ui_log (save_thumbnails lib g bs) = ui_log bs
        @ [ProgressDialog ''Generating thumbnails...'' ''Cancel'' 0 (batch_count (app bs))]
        @ concat (map (item_events (batch_count (app bs))) [0..<k])
        @ [SetValue (batch_count (app bs)),
           Information ''Success''
             (str_int (batch_count (app bs)) @ '' thumbnails saved successfully!'')]"
    and "k < nat (batch_count (app bs)) \<Longrightarrow> wasCanceled g k \<Longrightarrow>
      map fst (saved (save_thumbnails lib g bs)) = map fst (saved bs)
        @ map (\<lambda>i. thumbnail_path (app bs) (getExistingDirectory g)
                 (start_number (app bs) + int i)) [0..<k]
      \<and> ui_log (save_thumbnails lib g bs) = ui_log bs
        @ [ProgressDialog ''Generating thumbnails...'' ''Cancel'' 0 (batch_count (app bs))]
        @ concat (map (item_events (batch_count (app bs))) [0..<k])
        @ [SetValue (batch_count (app bs)),
           Information ''Success''
             (str_int (batch_count (app bs)) @ '' thumbnails saved successfully!'')]"
    and "k < nat (batch_count (app bs)) \<Longrightarrow> \<not> wasCanceled g k \<Longrightarrow>
      save_raises g (thumbnail_path (app bs) (getExistingDirectory g)
         (start_number (app bs) + int k)) = Some e \<Longrightarrow>
      map fst (saved (save_thumbnails lib g bs)) = map fst (saved bs)
        @ map (\<lambda>i. thumbnail_path (app bs) (getExistingDirectory g)
                 (start_number (app bs) + int i)) [0..<k]
      \<and> ui_log (save_thumbnails lib g bs) = ui_log bs
        @ [ProgressDialog ''Generating thumbnails...'' ''Cancel'' 0 (batch_count (app bs))]
        @ concat (map (item_events (batch_count (app bs))) [0..<Suc k])
        @ [Critical ''Save Error'' (''Failed to save thumbnails: '' @ message e)]"
proof -
  let ?dir = "getExistingDirectory g"
  let ?start = "start_number (app bs)"
  let ?count = "batch_count (app bs)"
  let ?bs1 = "bs\<lparr>ui_log := ui_log bs
      @ [ProgressDialog ''Generating thumbnails...'' ''Cancel'' 0 ?count]\<rparr>"
  have ok: "\<forall>i\<in>set [0..<k]. item_ok g (app ?bs1) ?dir ?start i"
    using assms(4) by simp
  have pre: "\<And>rest. \<exists>bs'. batch_loop lib g ?dir ?start ?count ([0..<k] @ rest) ?bs1 =
           batch_loop lib g ?dir ?start ?count rest bs'
       \<and> map fst (saved bs') = map fst (saved bs)
             @ map (\<lambda>i. thumbnail_path (app bs) ?dir (?start + int i)) [0..<k]
       \<and> ui_log bs' = ui_log ?bs1 @ concat (map (item_events ?count) [0..<k])
       \<and> same_inputs (app bs') (app bs)"
    using batch_loop_prefix[OF assms(1) ok] by simp
  {
    assume "k = nat ?count"
    then have idx: "[0..<nat ?count] = [0..<k] @ []" by simp
    from pre[of "[]"] obtain bs' where
      l: "batch_loop lib g ?dir ?start ?count ([0..<k] @ []) ?bs1 =
           batch_loop lib g ?dir ?start ?count [] bs'"
      and s: "map fst (saved bs') = map fst (saved bs)
             @ map (\<lambda>i. thumbnail_path (app bs) ?dir (?start + int i)) [0..<k]"
      and u: "ui_log bs' = ui_log ?bs1 @ concat (map (item_events ?count) [0..<k])"
      by blast
    have "batch_loop lib g ?dir ?start ?count [0..<nat ?count] ?bs1 = (None, bs')"
      unfolding idx l by simp
    with s u have "batch_loop lib g ?dir ?start ?count [0..<nat ?count] ?bs1 = (None, bs')"
      "map fst (saved bs') = map fst (saved bs)
             @ map (\<lambda>i. thumbnail_path (app bs) ?dir (?start + int i)) [0..<k]"
      "ui_log bs' = ui_log ?bs1 @ concat (map (item_events ?count) [0..<k])"
      by blast+
    then show "map fst (saved (save_thumbnails lib g bs)) = map fst (saved bs)
        @ map (\<lambda>i. thumbnail_path (app bs) ?dir (?start + int i)) [0..<k]
      \<and> ui_log (save_thumbnails lib g bs) = ui_log bs
        @ [ProgressDialog ''Generating thumbnails...'' ''Cancel'' 0 ?count]
        @ concat (map (item_events ?count) [0..<k])
        @ [SetValue ?count,
           Information ''Success'' (str_int ?count @ '' thumbnails saved successfully!'')]"
      using assms(2) by (simp add: save_thumbnails_def Let_def)
  }
  {
    assume kl: "k < nat ?count" and c: "wasCanceled g k"
    have idx: "[0..<nat ?count] = [0..<k] @ (k # [Suc k..<nat ?count])"
      using upt_split[OF kl] .
    from pre[of "k # [Suc k..<nat ?count]"] obtain bs' where
      l: "batch_loop lib g ?dir ?start ?count ([0..<k] @ (k # [Suc k..<nat ?count])) ?bs1 =
         batch_loop lib g ?dir ?start ?count (k # [Suc k..<nat ?count]) bs'"
      and s: "map fst (saved bs') = map fst (saved bs)
             @ map (\<lambda>i. thumbnail_path (app bs) ?dir (?start + int i)) [0..<k]"
      and u: "ui_log bs' = ui_log ?bs1 @ concat (map (item_events ?count) [0..<k])"
      by blast
    have "batch_loop lib g ?dir ?start ?count [0..<nat ?count] ?bs1 = (None, bs')"
      unfolding idx l by (rule batch_loop_cancel[OF c])
    with s u have "batch_loop lib g ?dir ?start ?count [0..<nat ?count] ?bs1 = (None, bs')"
      "map fst (saved bs') = map fst (saved bs)
             @ map (\<lambda>i. thumbnail_path (app bs) ?dir (?start + int i)) [0..<k]"
      "ui_log bs' = ui_log ?bs1 @ concat (map (item_events ?count) [0..<k])"
      by blast+
    then show "map fst (saved (save_thumbnails lib g bs)) = map fst (saved bs)
        @ map (\<lambda>i. thumbnail_path (app bs) ?dir (?start + int i)) [0..<k]
      \<and> ui_log (save_thumbnails lib g bs) = ui_log bs
        @ [ProgressDialog ''Generating thumbnails...'' ''Cancel'' 0 ?count]
        @ concat (map (item_events ?count) [0..<k])
        @ [SetValue ?count,
           Information ''Success'' (str_int ?count @ '' thumbnails saved successfully!'')]"
      using assms(2) by (simp add: save_thumbnails_def Let_def)
  }
  {
    assume kl: "k < nat ?count" and nc: "\<not> wasCanceled g k"
      and err: "save_raises g (thumbnail_path (app bs) ?dir (?start + int k)) = Some e"
    have idx: "[0..<nat ?count] = [0..<k] @ (k # [Suc k..<nat ?count])"
      using upt_split[OF kl] .
    from pre[of "k # [Suc k..<nat ?count]"] obtain bs' where
      l: "batch_loop lib g ?dir ?start ?count ([0..<k] @ (k # [Suc k..<nat ?count])) ?bs1 =
         batch_loop lib g ?dir ?start ?count (k # [Suc k..<nat ?count]) bs'"
      and s: "map fst (saved bs') = map fst (saved bs)
             @ map (\<lambda>i. thumbnail_path (app bs) ?dir (?start + int i)) [0..<k]"
      and u: "ui_log bs' = ui_log ?bs1 @ concat (map (item_events ?count) [0..<k])"
      and si: "same_inputs (app bs') (app bs)"
      by blast
    have "save_raises g (thumbnail_path (app bs') ?dir (?start + int k)) = Some e"
      using err same_inputs_path[OF si] by simp
    from batch_loop_write_error[OF assms(1) nc this] obtain st' where
      w: "batch_loop lib g ?dir ?start ?count (k # [Suc k..<nat ?count]) bs' =
           (Some e, bs'\<lparr>ui_log := ui_log bs' @ item_events ?count k, app := st'\<rparr>)"
      by blast
    have "batch_loop lib g ?dir ?start ?count [0..<nat ?count] ?bs1 =
           (Some e, bs'\<lparr>ui_log := ui_log bs' @ item_events ?count k, app := st'\<rparr>)"
      unfolding idx l by (rule w)
    then show "map fst (saved (save_thumbnails lib g bs)) = map fst (saved bs)
        @ map (\<lambda>i. thumbnail_path (app bs) ?dir (?start + int i)) [0..<k]
      \<and> ui_log (save_thumbnails lib g bs) = ui_log bs
        @ [ProgressDialog ''Generating thumbnails...'' ''Cancel'' 0 ?count]
        @ concat (map (item_events ?count) [0..<Suc k])
        @ [Critical ''Save Error'' (''Failed to save thumbnails: '' @ message e)]"
      using assms(2) s u by (simp add: save_thumbnails_def Let_def)
  }
qed

lemma save_thumbnails_saved:
  "\<exists>k\<le>nat (batch_count (app bs)).
     map fst (saved (save_thumbnails lib g bs)) = map fst (saved bs)
       @ map (\<lambda>i. thumbnail_path (app bs) (getExistingDirectory g)
                (start_number (app bs) + int i)) [0..<k]"
proof (cases "getExistingDirectory g = []")
  case True
  then have "save_thumbnails lib g bs = bs" by (simp add: save_thumbnails_def)
  then show ?thesis by (intro exI[of _ 0]) simp
next
  case False
  let ?bs1 = "bs\<lparr>ui_log := ui_log bs
      @ [ProgressDialog ''Generating thumbnails...'' ''Cancel'' 0 (batch_count (app bs))]\<rparr>"
  obtain r bs2 where l: "batch_loop lib g (getExistingDirectory g) (start_number (app bs))
      (batch_count (app bs)) [0..<nat (batch_count (app bs))] ?bs1 = (r, bs2)"
    by (cases "batch_loop lib g (getExistingDirectory g) (start_number (app bs))
      (batch_count (app bs)) [0..<nat (batch_count (app bs))] ?bs1")
  from batch_loop_saved[OF l] obtain k where k: "k \<le> nat (batch_count (app bs))"
    and s: "map fst (saved bs2) = map fst (saved ?bs1)
       @ map (\<lambda>i. thumbnail_path (app ?bs1) (getExistingDirectory g)
                (start_number (app bs) + int i)) (take k [0..<nat (batch_count (app bs))])"
    by auto
  have t: "take k [0..<nat (batch_count (app bs))] = [0..<k]"
    using k by (simp add: take_upt)
  have "saved (save_thumbnails lib g bs) = saved bs2"
    using False l by (cases r) (simp_all add: save_thumbnails_def Let_def)
  then show ?thesis using k s unfolding t by (intro exI[of _ k]) simp
qed

lemma str_strip_id:
  assumes "s \<noteq> []" and "\<not> isspace (hd s)" and "\<not> isspace (last s)"
  shows "str_strip s = s"
proof -
  have a: "dropWhile isspace s = s" using assms(1,2) by (cases s) auto
  have "rev s \<noteq> []" "\<not> isspace (hd (rev s))"
    using assms(1,3) by (simp_all add: hd_rev)
  then have "dropWhile isspace (rev s) = rev s" by (cases "rev s") auto
  then show ?thesis using a by (simp add: str_strip_def)
qed

lemma thumbnail_filename_basic:
  "(\<forall>img filename_title st'.
       generate_thumbnail lib st number width height = Inr ((img, filename_title), st') \<longrightarrow>
       filename_title @ ''_Thumbnail.png'' =
         (if str_strip (course_input st) \<noteq> []
          then str_strip (course_input st) @ '' - '' @ title_of st number @ ''_Thumbnail.png''
          else title_of st number @ ''_Thumbnail.png''))
   \<and> (course_input st \<noteq> [] \<and> \<not> isspace (hd (course_input st))
        \<and> \<not> isspace (last (course_input st)) \<longrightarrow> str_strip (course_input st) = course_input st)
   \<and> (\<exists>k\<le>nat (batch_count (app bs)).
         map fst (saved (save_thumbnails lib g bs)) = map fst (saved bs)
           @ map (\<lambda>i. path_join (getExistingDirectory g)
                    (filename_title_of (app bs) (start_number (app bs) + int i)
                       @ ''_Thumbnail.png'')) [0..<k])
   \<and> (course_input st = ''CS 101'' \<and> title_input st = ''Week # Overview'' \<longrightarrow>
         filename_title_of st 1 @ ''_Thumbnail.png'' = ''CS 101 - Week 1 Overview_Thumbnail.png'')
   \<and> (course_input st = [] \<and> title_input st = ''Week # Overview'' \<longrightarrow>
         filename_title_of st 1 @ ''_Thumbnail.png'' = ''Week 1 Overview_Thumbnail.png'')"
proof (intro conjI allI impI)
  fix img filename_title st'
  assume "generate_thumbnail lib st number width height = Inr ((img, filename_title), st')"
  then have "filename_title = filename_title_of st number"
    using generate_thumbnail_result by blast
  then show "filename_title @ ''_Thumbnail.png'' =
         (if str_strip (course_input st) \<noteq> []
          then str_strip (course_input st) @ '' - '' @ title_of st number @ ''_Thumbnail.png''
          else title_of st number @ ''_Thumbnail.png'')"
    by (simp add: filename_title_of_def Let_def)
next
  assume "course_input st \<noteq> [] \<and> \<not> isspace (hd (course_input st))
        \<and> \<not> isspace (last (course_input st))"
  then show "str_strip (course_input st) = course_input st"
    using str_strip_id by blast
next
  show "\<exists>k\<le>nat (batch_count (app bs)).
         map fst (saved (save_thumbnails lib g bs)) = map fst (saved bs)
           @ map (\<lambda>i. path_join (getExistingDirectory g)
                    (filename_title_of (app bs) (start_number (app bs) + int i)
                       @ ''_Thumbnail.png'')) [0..<k]"
    using save_thumbnails_saved[of bs lib g] by (simp add: thumbnail_path_def)
next
  assume "course_input st = ''CS 101'' \<and> title_input st = ''Week # Overview''"
  then show "filename_title_of st 1 @ ''_Thumbnail.png''
      = ''CS 101 - Week 1 Overview_Thumbnail.png''"
    by (simp add: filename_title_of_def title_of_def str_replace_def str_int_1 str_strip_def
        isspace_def)
next
  assume "course_input st = [] \<and> title_input st = ''Week # Overview''"
  then show "filename_title_of st 1 @ ''_Thumbnail.png'' = ''Week 1 Overview_Thumbnail.png''"
    by (simp add: filename_title_of_def title_of_def str_replace_def str_int_1 str_strip_def)
qed

lemma save_thumbnails_names:
  "(let name = (\<lambda>n. path_join (getExistingDirectory g)
                  ((if str_strip (course_input (app bs)) \<noteq> []
                    then str_strip (course_input (app bs)) @ '' - '' @ title_of (app bs) n
                    else title_of (app bs) n) @ ''_Thumbnail.png''))
    in \<forall>k. pil_sized lib \<and> getExistingDirectory g \<noteq> []
          \<and> k \<le> nat (batch_count (app bs))
          \<and> (\<forall>i<k. \<not> wasCanceled g i
                \<and> save_raises g (name (start_number (app bs) + int i)) = None)
          \<and> (k = nat (batch_count (app bs)) \<or> wasCanceled g k
              \<or> save_raises g (name (start_number (app bs) + int k)) \<noteq> None)
          \<longrightarrow> map fst (saved (save_thumbnails lib g bs)) = map fst (saved bs)
                @ map (\<lambda>i. name (start_number (app bs) + int i)) [0..<k])"
proof -
  have name: "(\<lambda>n. path_join (getExistingDirectory g)
                  ((if str_strip (course_input (app bs)) \<noteq> []
                    then str_strip (course_input (app bs)) @ '' - '' @ title_of (app bs) n
                    else title_of (app bs) n) @ ''_Thumbnail.png''))
      = thumbnail_path (app bs) (getExistingDirectory g)"
    by (rule ext) (simp add: thumbnail_path_def filename_title_of_def Let_def)
  have "\<And>k. pil_sized lib \<and> getExistingDirectory g \<noteq> []
          \<and> k \<le> nat (batch_count (app bs))
          \<and> (\<forall>i<k. \<not> wasCanceled g i
                \<and> save_raises g (thumbnail_path (app bs) (getExistingDirectory g)
                      (start_number (app bs) + int i)) = None)
          \<and> (k = nat (batch_count (app bs)) \<or> wasCanceled g k
              \<or> save_raises g (thumbnail_path (app bs) (getExistingDirectory g)
                   (start_number (app bs) + int k)) \<noteq> None)
          \<Longrightarrow> map fst (saved (save_thumbnails lib g bs)) = map fst (saved bs)
                @ map (\<lambda>i. thumbnail_path (app bs) (getExistingDirectory g)
                         (start_number (app bs) + int i)) [0..<k]"
  proof -
    fix k
    assume h: "pil_sized lib \<and> getExistingDirectory g \<noteq> []
          \<and> k \<le> nat (batch_count (app bs))
          \<and> (\<forall>i<k. \<not> wasCanceled g i
                \<and> save_raises g (thumbnail_path (app bs) (getExistingDirectory g)
                      (start_number (app bs) + int i)) = None)
          \<and> (k = nat (batch_count (app bs)) \<or> wasCanceled g k
              \<or> save_raises g (thumbnail_path (app bs) (getExistingDirectory g)
                   (start_number (app bs) + int k)) \<noteq> None)"
    then have p: "pil_sized lib" and d: "getExistingDirectory g \<noteq> []"
      and le: "k \<le> nat (batch_count (app bs))"
      and ok: "\<forall>i<k. item_ok g (app bs) (getExistingDirectory g) (start_number (app bs)) i"
      by (simp_all add: item_ok_def)
    note out = save_thumbnails_outcome[OF p d le ok]
    show "map fst (saved (save_thumbnails lib g bs)) = map fst (saved bs)
                @ map (\<lambda>i. thumbnail_path (app bs) (getExistingDirectory g)
                         (start_number (app bs) + int i)) [0..<k]"
    proof (cases "k = nat (batch_count (app bs))")
      case True
      then show ?thesis using out(1) by blast
    next
      case False
      then have lt: "k < nat (batch_count (app bs))" using le by simp
      show ?thesis
      proof (cases "wasCanceled g k")
        case True
        then show ?thesis using out(2)[OF lt] by blast
      next
        case nc: False
        with h False obtain e where
          "save_raises g (thumbnail_path (app bs) (getExistingDirectory g)
             (start_number (app bs) + int k)) = Some e"
          by auto
        then show ?thesis using out(3)[OF lt nc] by blast
      qed
    qed
  qed
  then show ?thesis unfolding Let_def name by blast
qed

lemma cs101_fields:
  "start_number (app cs101_items) = 1" "batch_count (app cs101_items) = 2"
  "saved cs101_items = []" "course_input (app cs101_items) = ''CS 101''"
  "title_input (app cs101_items) = ''Week # Overview''"
  by (simp_all add: cs101_items_def initial_state_def)

lemma unnamed_fields:
  "start_number (app unnamed_items) = 1" "batch_count (app unnamed_items) = 2"
  "saved unnamed_items = []" "course_input (app unnamed_items) = []"
  "title_input (app unnamed_items) = ''Week # Overview''"
  by (simp_all add: unnamed_items_def initial_state_def)

lemma patient_fields:
  "getExistingDirectory patient_gui = ''/out''" "wasCanceled patient_gui i = False"
  "save_raises patient_gui p = None"
  by (simp_all add: patient_gui_def)

lemma strip_cs101: "str_strip ''CS 101'' = ''CS 101''"
  by (simp add: str_strip_def isspace_def)

lemma strip_empty: "str_strip [] = []"
  by (simp add: str_strip_def)

text \<open>
  C4. The title returned by rendering, followed by "_Thumbnail.png", is
  "course - title_Thumbnail.png" when the course name is not empty and
  "title_Thumbnail.png" when it is, where the course name is the text of the course field
  with surrounding whitespace stripped (the field itself when it has none) and the title
  is the template with the number substituted. The files a batch writes have exactly
  these names, in the chosen directory: when the first \<open>k\<close> items are neither cancelled
  nor stopped by a failing write, and the batch ends there (all items done, or item
  \<open>k\<close> cancelled or its write failing), the files written are those of the numbers
  \<open>start\<close> to \<open>start + k - 1\<close>, each named by that rule. The two scenarios of the
  specification hold.
\<close>

theorem thumbnail_filename:
  "(\<forall>img filename_title st'.
       generate_thumbnail lib st number width height = Inr ((img, filename_title), st') \<longrightarrow>
       filename_title @ ''_Thumbnail.png'' =
         (if str_strip (course_input st) \<noteq> []
          then str_strip (course_input st) @ '' - '' @ title_of st number @ ''_Thumbnail.png''
          else title_of st number @ ''_Thumbnail.png''))
   \<and> (course_input st \<noteq> [] \<and> \<not> isspace (hd (course_input st))
        \<and> \<not> isspace (last (course_input st)) \<longrightarrow> str_strip (course_input st) = course_input st)
   \<and> (\<exists>k\<le>nat (batch_count (app bs)).
         map fst (saved (save_thumbnails lib g bs)) = map fst (saved bs)
           @ map (\<lambda>i. path_join (getExistingDirectory g)
                    (filename_title_of (app bs) (start_number (app bs) + int i)
                       @ ''_Thumbnail.png'')) [0..<k])
   \<and> (course_input st = ''CS 101'' \<and> title_input st = ''Week # Overview'' \<longrightarrow>
         filename_title_of st 1 @ ''_Thumbnail.png'' = ''CS 101 - Week 1 Overview_Thumbnail.png'')
   \<and> (course_input st = [] \<and> title_input st = ''Week # Overview'' \<longrightarrow>
         filename_title_of st 1 @ ''_Thumbnail.png'' = ''Week 1 Overview_Thumbnail.png'')
   \<and> (let name = (\<lambda>n. path_join (getExistingDirectory g)
                  ((if str_strip (course_input (app bs)) \<noteq> []
                    then str_strip (course_input (app bs)) @ '' - '' @ title_of (app bs) n
                    else title_of (app bs) n) @ ''_Thumbnail.png''))
       in \<forall>k. pil_sized lib \<and> getExistingDirectory g \<noteq> []
            \<and> k \<le> nat (batch_count (app bs))
            \<and> (\<forall>i<k. \<not> wasCanceled g i
                  \<and> save_raises g (name (start_number (app bs) + int i)) = None)
            \<and> (k = nat (batch_count (app bs)) \<or> wasCanceled g k
                \<or> save_raises g (name (start_number (app bs) + int k)) \<noteq> None)
            \<longrightarrow> map fst (saved (save_thumbnails lib g bs)) = map fst (saved bs)
                  @ map (\<lambda>i. name (start_number (app bs) + int i)) [0..<k])"
proof -
  note b = thumbnail_filename_basic[of lib st number width height bs g]
  note n = save_thumbnails_names[of g bs lib]
  show ?thesis
    by (rule conjI[OF b[THEN conjunct1] conjI[OF b[THEN conjunct2, THEN conjunct1]
          conjI[OF b[THEN conjunct2, THEN conjunct2, THEN conjunct1]
            conjI[OF b[THEN conjunct2, THEN conjunct2, THEN conjunct2, THEN conjunct1]
              conjI[OF b[THEN conjunct2, THEN conjunct2, THEN conjunct2, THEN conjunct2]
                n]]]]])
qed

theorem thumbnail_filename_witness:
  "course_input (initial_state\<lparr>course_input := ''CS 101''\<rparr>) = ''CS 101''
   \<and> title_input (initial_state\<lparr>course_input := ''CS 101''\<rparr>) = ''Week # Overview''
   \<and> filename_title_of (initial_state\<lparr>course_input := ''CS 101''\<rparr>) 1 @ ''_Thumbnail.png''
       = ''CS 101 - Week 1 Overview_Thumbnail.png''
   \<and> str_strip ''CS 101'' = ''CS 101''
   \<and> map_sum id (\<lambda>r. snd (fst r) @ ''_Thumbnail.png'')
        (generate_thumbnail (example_pil []) (initial_state\<lparr>course_input := ''CS 101''\<rparr>) 1 2 1)
       = Inr ''CS 101 - Week 1 Overview_Thumbnail.png''
   \<and> pil_sized (example_pil [])
   \<and> map fst (saved (save_thumbnails (example_pil []) patient_gui cs101_items))
       = [''/out/CS 101 - Week 1 Overview_Thumbnail.png'',
          ''/out/CS 101 - Week 2 Overview_Thumbnail.png'']
   \<and> map fst (saved (save_thumbnails (example_pil []) patient_gui unnamed_items))
       = [''/out/Week 1 Overview_Thumbnail.png'', ''/out/Week 2 Overview_Thumbnail.png'']"
proof -
  let ?st = "initial_state\<lparr>course_input := ''CS 101''\<rparr>"
  note inst = thumbnail_filename[of "example_pil []" ?st 1 2 1 three_items patient_gui]
  have c: "course_input ?st = ''CS 101''" and t: "title_input ?st = ''Week # Overview''"
    by (simp_all add: initial_state_def)
  from inst c t have f: "filename_title_of ?st 1 @ ''_Thumbnail.png''
       = ''CS 101 - Week 1 Overview_Thumbnail.png''"
    by blast
  have "course_input ?st \<noteq> [] \<and> \<not> isspace (hd (course_input ?st))
        \<and> \<not> isspace (last (course_input ?st))"
    by (simp add: initial_state_def isspace_def)
  with inst have "str_strip (course_input ?st) = course_input ?st" by blast
  then have s: "str_strip ''CS 101'' = ''CS 101''" using c by simp
  obtain img where g: "generate_thumbnail (example_pil []) ?st 1 2 1 =
     Inr ((img, filename_title_of ?st 1),
          snd (get_pil_font (example_pil []) ?st (font_combo ?st) (font_size_slider ?st)))"
    using generate_thumbnail_ok[OF pil_sized_example] by blast
  from inst g have "filename_title_of ?st 1 @ ''_Thumbnail.png'' =
         (if str_strip (course_input ?st) \<noteq> []
          then str_strip (course_input ?st) @ '' - '' @ title_of ?st 1 @ ''_Thumbnail.png''
          else title_of ?st 1 @ ''_Thumbnail.png'')"
    by blast
  then have m: "map_sum id (\<lambda>r. snd (fst r) @ ''_Thumbnail.png'')
        (generate_thumbnail (example_pil []) ?st 1 2 1)
       = Inr ''CS 101 - Week 1 Overview_Thumbnail.png''"
    using g f by simp
  have u: "[0..<2] = [0, Suc 0]"
    by (simp add: upt_rec)
  note names1 = thumbnail_filename[where lib = "example_pil []" and st = ?st and number = 1
      and width = 2 and height = 1 and bs = cs101_items and g = patient_gui,
      THEN conjunct2, THEN conjunct2, THEN conjunct2, THEN conjunct2, THEN conjunct2,
      unfolded Let_def, rule_format, of 2]
  have n1: "map fst (saved (save_thumbnails (example_pil []) patient_gui cs101_items))
       = [''/out/CS 101 - Week 1 Overview_Thumbnail.png'',
          ''/out/CS 101 - Week 2 Overview_Thumbnail.png'']"
    by (rule trans[OF names1])
      (simp_all add: pil_sized_example patient_fields cs101_fields strip_cs101 u
        title_of_def str_replace_def str_int_1 str_int_2 path_join_def)
  note names2 = thumbnail_filename[where lib = "example_pil []" and st = ?st and number = 1
      and width = 2 and height = 1 and bs = unnamed_items and g = patient_gui,
      THEN conjunct2, THEN conjunct2, THEN conjunct2, THEN conjunct2, THEN conjunct2,
      unfolded Let_def, rule_format, of 2]
  have n2: "map fst (saved (save_thumbnails (example_pil []) patient_gui unnamed_items))
       = [''/out/Week 1 Overview_Thumbnail.png'', ''/out/Week 2 Overview_Thumbnail.png'']"
    by (rule trans[OF names2])
      (simp_all add: pil_sized_example patient_fields unnamed_fields strip_empty u
        title_of_def str_replace_def str_int_1 str_int_2 path_join_def)
  show ?thesis using c t f s m n1 n2 pil_sized_example by blast
qed

lemma three_items_fields:
  "start_number (app three_items) = 1" "batch_count (app three_items) = 3"
  "saved three_items = []" "ui_log three_items = []"
  by (simp_all add: three_items_def initial_state_def)

lemma three_items_path_1:
  "thumbnail_path (app three_items) ''/out'' 1
     = ''/out/COURSE ### - Week 1 Overview_Thumbnail.png''"
  by (simp add: thumbnail_path_def filename_title_of_def title_of_def three_items_def
      initial_state_def str_strip_def isspace_def str_replace_def str_int_1 path_join_def)

lemma three_items_path_2:
  "thumbnail_path (app three_items) ''/out'' 2
     = ''/out/COURSE ### - Week 2 Overview_Thumbnail.png''"
  by (simp add: thumbnail_path_def filename_title_of_def title_of_def three_items_def
      initial_state_def str_strip_def isspace_def str_replace_def str_int_2 path_join_def)

lemma three_items_path_3:
  "thumbnail_path (app three_items) ''/out'' 3
     = ''/out/COURSE ### - Week 3 Overview_Thumbnail.png''"
  by (simp add: thumbnail_path_def filename_title_of_def title_of_def three_items_def
      initial_state_def str_strip_def isspace_def str_replace_def str_int_3 path_join_def)

lemma cancelled_after_one:
  "map fst (saved (save_thumbnails (example_pil []) cancelling_gui three_items))
     = [''/out/COURSE ### - Week 1 Overview_Thumbnail.png'']
   \<and> last (ui_log (save_thumbnails (example_pil []) cancelling_gui three_items))
     = Information ''Success'' ''3 thumbnails saved successfully!''"
proof -
  have d: "getExistingDirectory cancelling_gui = ''/out''"
    by (simp add: cancelling_gui_def)
  have ok: "\<forall>i<1. item_ok cancelling_gui (app three_items)
      (getExistingDirectory cancelling_gui) (start_number (app three_items)) i"
    by (simp add: item_ok_def cancelling_gui_def)
  have "map fst (saved (save_thumbnails (example_pil []) cancelling_gui three_items))
      = map fst (saved three_items)
        @ map (\<lambda>i. thumbnail_path (app three_items) (getExistingDirectory cancelling_gui)
                 (start_number (app three_items) + int i)) [0..<1]
      \<and> ui_log (save_thumbnails (example_pil []) cancelling_gui three_items) = ui_log three_items
        @ [ProgressDialog ''Generating thumbnails...'' ''Cancel'' 0 (batch_count (app three_items))]
        @ concat (map (item_events (batch_count (app three_items))) [0..<1])
        @ [SetValue (batch_count (app three_items)),
           Information ''Success''
             (str_int (batch_count (app three_items)) @ '' thumbnails saved successfully!'')]"
    by (rule save_thumbnails_outcome(2)[OF pil_sized_example _ _ ok])
      (simp_all add: three_items_fields cancelling_gui_def)
  then show ?thesis
    by (simp add: three_items_fields d three_items_path_1 str_int_3)
qed

lemma disk_full_after_one:
  "map fst (saved (save_thumbnails (example_pil []) full_disk_gui three_items))
     = [''/out/COURSE ### - Week 1 Overview_Thumbnail.png'']
   \<and> last (ui_log (save_thumbnails (example_pil []) full_disk_gui three_items))
     = Critical ''Save Error'' ''Failed to save thumbnails: No space left on device''"
proof -
  have d: "getExistingDirectory full_disk_gui = ''/out''"
    by (simp add: full_disk_gui_def)
  have ok: "\<forall>i<1. item_ok full_disk_gui (app three_items)
      (getExistingDirectory full_disk_gui) (start_number (app three_items)) i"
    by (simp add: item_ok_def d three_items_fields three_items_path_1)
      (simp add: full_disk_gui_def)
  have e: "save_raises full_disk_gui (thumbnail_path (app three_items)
      (getExistingDirectory full_disk_gui) (start_number (app three_items) + int 1))
      = Some (PyException ''No space left on device'')"
    by (simp add: d three_items_fields three_items_path_2) (simp add: full_disk_gui_def)
  have "map fst (saved (save_thumbnails (example_pil []) full_disk_gui three_items))
      = map fst (saved three_items)
        @ map (\<lambda>i. thumbnail_path (app three_items) (getExistingDirectory full_disk_gui)
                 (start_number (app three_items) + int i)) [0..<1]
      \<and> ui_log (save_thumbnails (example_pil []) full_disk_gui three_items) = ui_log three_items
        @ [ProgressDialog ''Generating thumbnails...'' ''Cancel'' 0 (batch_count (app three_items))]
        @ concat (map (item_events (batch_count (app three_items))) [0..<Suc 1])
        @ [Critical ''Save Error'' (''Failed to save thumbnails: ''
             @ message (PyException ''No space left on device''))]"
    by (rule save_thumbnails_outcome(3)[OF pil_sized_example _ _ ok _ _ e])
      (simp_all add: three_items_fields full_disk_gui_def)
  then show ?thesis
    by (simp add: three_items_fields d three_items_path_1)
qed

text \<open>
  C8 as stated fails. A batch of three cancelled after the first item has written one
  file and reports "3 thumbnails saved successfully!"; a batch of three whose second
  write fails has written one file and reports the error message, with no count.
\<close>

theorem batch_report_counterexample:
  "map fst (saved (save_thumbnails (example_pil []) cancelling_gui three_items))
     = [''/out/COURSE ### - Week 1 Overview_Thumbnail.png'']
   \<and> last (ui_log (save_thumbnails (example_pil []) cancelling_gui three_items))
     = Information ''Success'' ''3 thumbnails saved successfully!''
   \<and> map fst (saved (save_thumbnails (example_pil []) full_disk_gui three_items))
     = [''/out/COURSE ### - Week 1 Overview_Thumbnail.png'']
   \<and> last (ui_log (save_thumbnails (example_pil []) full_disk_gui three_items))
     = Critical ''Save Error'' ''Failed to save thumbnails: No space left on device''"
  using cancelled_after_one disk_full_after_one by simp

text \<open>
  C8, as the code has it (with a library whose resizing keeps to the size asked for, and
  a directory chosen). The progress dialog runs from 0 to the requested count, and
  before each item \<open>i\<close> that is started the progress value is set to \<open>i\<close>, the number of
  items written so far. When no item is cancelled or fails, every item is written, the
  value is then set to the count and the count is reported as saved. When the write of
  item \<open>k\<close> fails, items \<open>0\<close> to \<open>k - 1\<close> are the files written, no later item is
  tried, and the report is the error message, without any count. When cancellation is
  seen before item \<open>k\<close>, items \<open>0\<close> to \<open>k - 1\<close> are the files written, no later item is
  tried, and the progress events up to the stop are those of items \<open>0\<close> to \<open>k - 1\<close>.
\<close>

theorem save_thumbnails_report:
  assumes "pil_sized lib" and "getExistingDirectory g \<noteq> []"
  shows "((\<forall>i<nat (batch_count (app bs)).
            item_ok g (app bs) (getExistingDirectory g) (start_number (app bs)) i) \<longrightarrow>
          map fst (saved (save_thumbnails lib g bs)) = map fst (saved bs)
            @ map (\<lambda>i. thumbnail_path (app bs) (getExistingDirectory g)
                     (start_number (app bs) + int i)) [0..<nat (batch_count (app bs))]
          \<and> ui_log (save_thumbnails lib g bs) = ui_log bs
            @ [ProgressDialog ''Generating thumbnails...'' ''Cancel'' 0 (batch_count (app bs))]
            @ concat (map (item_events (batch_count (app bs))) [0..<nat (batch_count (app bs))])
            @ [SetValue (batch_count (app bs)),
               Information ''Success''
                 (str_int (batch_count (app bs)) @ '' thumbnails saved successfully!'')])
     \<and> (\<forall>k e. k < nat (batch_count (app bs))
            \<and> (\<forall>i<k. item_ok g (app bs) (getExistingDirectory g) (start_number (app bs)) i)
            \<and> \<not> wasCanceled g k
            \<and> save_raises g (thumbnail_path (app bs) (getExistingDirectory g)
                 (start_number (app bs) + int k)) = Some e \<longrightarrow>
          map fst (saved (save_thumbnails lib g bs)) = map fst (saved bs)
            @ map (\<lambda>i. thumbnail_path (app bs) (getExistingDirectory g)
                     (start_number (app bs) + int i)) [0..<k]
          \<and> ui_log (save_thumbnails lib g bs) = ui_log bs
            @ [ProgressDialog ''Generating thumbnails...'' ''Cancel'' 0 (batch_count (app bs))]
            @ concat (map (item_events (batch_count (app bs))) [0..<Suc k])
            @ [Critical ''Save Error'' (''Failed to save thumbnails: '' @ message e)])
     \<and> (\<forall>k. k < nat (batch_count (app bs))
            \<and> (\<forall>i<k. item_ok g (app bs) (getExistingDirectory g) (start_number (app bs)) i)
            \<and> wasCanceled g k \<longrightarrow>
          map fst (saved (save_thumbnails lib g bs)) = map fst (saved bs)
            @ map (\<lambda>i. thumbnail_path (app bs) (getExistingDirectory g)
                     (start_number (app bs) + int i)) [0..<k]
          \<and> (\<exists>report. ui_log (save_thumbnails lib g bs) = ui_log bs
                @ [ProgressDialog ''Generating thumbnails...'' ''Cancel'' 0
                     (batch_count (app bs))]
                @ concat (map (item_events (batch_count (app bs))) [0..<k])
                @ report))"
proof -
  have p1: "(\<forall>i<nat (batch_count (app bs)).
            item_ok g (app bs) (getExistingDirectory g) (start_number (app bs)) i) \<Longrightarrow>
          map fst (saved (save_thumbnails lib g bs)) = map fst (saved bs)
            @ map (\<lambda>i. thumbnail_path (app bs) (getExistingDirectory g)
                     (start_number (app bs) + int i)) [0..<nat (batch_count (app bs))]
          \<and> ui_log (save_thumbnails lib g bs) = ui_log bs
            @ [ProgressDialog ''Generating thumbnails...'' ''Cancel'' 0 (batch_count (app bs))]
            @ concat (map (item_events (batch_count (app bs))) [0..<nat (batch_count (app bs))])
            @ [SetValue (batch_count (app bs)),
               Information ''Success''
                 (str_int (batch_count (app bs)) @ '' thumbnails saved successfully!'')]"
    using save_thumbnails_outcome(1)[OF assms, of "nat (batch_count (app bs))" bs] by simp
  have p2: "\<And>k e. k < nat (batch_count (app bs))
            \<and> (\<forall>i<k. item_ok g (app bs) (getExistingDirectory g) (start_number (app bs)) i)
            \<and> \<not> wasCanceled g k
            \<and> save_raises g (thumbnail_path (app bs) (getExistingDirectory g)
                 (start_number (app bs) + int k)) = Some e \<Longrightarrow>
          map fst (saved (save_thumbnails lib g bs)) = map fst (saved bs)
            @ map (\<lambda>i. thumbnail_path (app bs) (getExistingDirectory g)
                     (start_number (app bs) + int i)) [0..<k]
          \<and> ui_log (save_thumbnails lib g bs) = ui_log bs
            @ [ProgressDialog ''Generating thumbnails...'' ''Cancel'' 0 (batch_count (app bs))]
            @ concat (map (item_events (batch_count (app bs))) [0..<Suc k])
            @ [Critical ''Save Error'' (''Failed to save thumbnails: '' @ message e)]"
  proof -
    fix k e
    assume h: "k < nat (batch_count (app bs))
            \<and> (\<forall>i<k. item_ok g (app bs) (getExistingDirectory g) (start_number (app bs)) i)
            \<and> \<not> wasCanceled g k
            \<and> save_raises g (thumbnail_path (app bs) (getExistingDirectory g)
                 (start_number (app bs) + int k)) = Some e"
    then have le: "k \<le> nat (batch_count (app bs))" by simp
    from h have ok: "\<forall>i<k. item_ok g (app bs) (getExistingDirectory g)
        (start_number (app bs)) i"
      by blast
    from h show "map fst (saved (save_thumbnails lib g bs)) = map fst (saved bs)
            @ map (\<lambda>i. thumbnail_path (app bs) (getExistingDirectory g)
                     (start_number (app bs) + int i)) [0..<k]
          \<and> ui_log (save_thumbnails lib g bs) = ui_log bs
            @ [ProgressDialog ''Generating thumbnails...'' ''Cancel'' 0 (batch_count (app bs))]
            @ concat (map (item_events (batch_count (app bs))) [0..<Suc k])
            @ [Critical ''Save Error'' (''Failed to save thumbnails: '' @ message e)]"
      using save_thumbnails_outcome(3)[OF assms le ok] by blast
  qed
  have p3: "\<And>k. k < nat (batch_count (app bs))
            \<and> (\<forall>i<k. item_ok g (app bs) (getExistingDirectory g) (start_number (app bs)) i)
            \<and> wasCanceled g k \<Longrightarrow>
          map fst (saved (save_thumbnails lib g bs)) = map fst (saved bs)
            @ map (\<lambda>i. thumbnail_path (app bs) (getExistingDirectory g)
                     (start_number (app bs) + int i)) [0..<k]
          \<and> (\<exists>report. ui_log (save_thumbnails lib g bs) = ui_log bs
                @ [ProgressDialog ''Generating thumbnails...'' ''Cancel'' 0
                     (batch_count (app bs))]
                @ concat (map (item_events (batch_count (app bs))) [0..<k])
                @ report)"
  proof -
    fix k
    assume h: "k < nat (batch_count (app bs))
            \<and> (\<forall>i<k. item_ok g (app bs) (getExistingDirectory g) (start_number (app bs)) i)
            \<and> wasCanceled g k"
    then have le: "k \<le> nat (batch_count (app bs))" by simp
    from h have ok: "\<forall>i<k. item_ok g (app bs) (getExistingDirectory g)
        (start_number (app bs)) i"
      by blast
    from h have "map fst (saved (save_thumbnails lib g bs)) = map fst (saved bs)
        @ map (\<lambda>i. thumbnail_path (app bs) (getExistingDirectory g)
                 (start_number (app bs) + int i)) [0..<k]
      \<and> ui_log (save_thumbnails lib g bs) = ui_log bs
        @ [ProgressDialog ''Generating thumbnails...'' ''Cancel'' 0 (batch_count (app bs))]
        @ concat (map (item_events (batch_count (app bs))) [0..<k])
        @ [SetValue (batch_count (app bs)),
           Information ''Success''
             (str_int (batch_count (app bs)) @ '' thumbnails saved successfully!'')]"
      using save_thumbnails_outcome(2)[OF assms le ok] by blast
    then show "map fst (saved (save_thumbnails lib g bs)) = map fst (saved bs)
            @ map (\<lambda>i. thumbnail_path (app bs) (getExistingDirectory g)
                     (start_number (app bs) + int i)) [0..<k]
          \<and> (\<exists>report. ui_log (save_thumbnails lib g bs) = ui_log bs
                @ [ProgressDialog ''Generating thumbnails...'' ''Cancel'' 0
                     (batch_count (app bs))]
                @ concat (map (item_events (batch_count (app bs))) [0..<k])
                @ report)"
      by blast
  qed
  show ?thesis using p1 p2 p3 by blast
qed

theorem save_thumbnails_report_witness:
  "pil_sized (example_pil [])
   \<and> getExistingDirectory patient_gui = ''/out''
   \<and> map fst (saved (save_thumbnails (example_pil []) patient_gui three_items))
       = [''/out/COURSE ### - Week 1 Overview_Thumbnail.png'',
          ''/out/COURSE ### - Week 2 Overview_Thumbnail.png'',
          ''/out/COURSE ### - Week 3 Overview_Thumbnail.png'']
   \<and> ui_log (save_thumbnails (example_pil []) patient_gui three_items)
       = [ProgressDialog ''Generating thumbnails...'' ''Cancel'' 0 3,
          SetValue 0, SetLabelText ''Generating thumbnail 1 of 3...'',
          SetValue 1, SetLabelText ''Generating thumbnail 2 of 3...'',
          SetValue 2, SetLabelText ''Generating thumbnail 3 of 3...'',
          SetValue 3, Information ''Success'' ''3 thumbnails saved successfully!'']
   \<and> wasCanceled cancelling_gui 1
   \<and> map fst (saved (save_thumbnails (example_pil []) cancelling_gui three_items))
       = [''/out/COURSE ### - Week 1 Overview_Thumbnail.png'']
   \<and> take 3 (ui_log (save_thumbnails (example_pil []) cancelling_gui three_items))
       = [ProgressDialog ''Generating thumbnails...'' ''Cancel'' 0 3,
          SetValue 0, SetLabelText ''Generating thumbnail 1 of 3...'']
   \<and> save_raises full_disk_gui ''/out/COURSE ### - Week 2 Overview_Thumbnail.png''
       = Some (PyException ''No space left on device'')
   \<and> map fst (saved (save_thumbnails (example_pil []) full_disk_gui three_items))
       = [''/out/COURSE ### - Week 1 Overview_Thumbnail.png'']
   \<and> ui_log (save_thumbnails (example_pil []) full_disk_gui three_items)
       = [ProgressDialog ''Generating thumbnails...'' ''Cancel'' 0 3,
          SetValue 0, SetLabelText ''Generating thumbnail 1 of 3...'',
          SetValue 1, SetLabelText ''Generating thumbnail 2 of 3...'',
          Critical ''Save Error'' ''Failed to save thumbnails: No space left on device'']"
proof -
  have d: "getExistingDirectory patient_gui = ''/out''"
    by (simp add: patient_gui_def)
  have ne: "getExistingDirectory patient_gui \<noteq> []"
    by (simp add: patient_gui_def)
  have ok: "\<forall>i<nat (batch_count (app three_items)).
      item_ok patient_gui (app three_items) (getExistingDirectory patient_gui)
        (start_number (app three_items)) i"
    by (simp add: item_ok_def patient_gui_def)
  have u: "[0..<nat (batch_count (app three_items))] = [0, 1, 2]"
    by (simp add: three_items_fields upt_rec)
  note inst = save_thumbnails_report[OF pil_sized_example ne, of three_items]
  from inst ok have r: "map fst (saved (save_thumbnails (example_pil []) patient_gui three_items))
        = map fst (saved three_items)
            @ map (\<lambda>i. thumbnail_path (app three_items) (getExistingDirectory patient_gui)
                     (start_number (app three_items) + int i))
                [0..<nat (batch_count (app three_items))]
      \<and> ui_log (save_thumbnails (example_pil []) patient_gui three_items) = ui_log three_items
            @ [ProgressDialog ''Generating thumbnails...'' ''Cancel'' 0
                 (batch_count (app three_items))]
            @ concat (map (item_events (batch_count (app three_items)))
                [0..<nat (batch_count (app three_items))])
            @ [SetValue (batch_count (app three_items)),
               Information ''Success''
                 (str_int (batch_count (app three_items)) @ '' thumbnails saved successfully!'')]"
    by blast
  have a: "map fst (saved (save_thumbnails (example_pil []) patient_gui three_items))
       = [''/out/COURSE ### - Week 1 Overview_Thumbnail.png'',
          ''/out/COURSE ### - Week 2 Overview_Thumbnail.png'',
          ''/out/COURSE ### - Week 3 Overview_Thumbnail.png'']
   \<and> ui_log (save_thumbnails (example_pil []) patient_gui three_items)
       = [ProgressDialog ''Generating thumbnails...'' ''Cancel'' 0 3,
          SetValue 0, SetLabelText ''Generating thumbnail 1 of 3...'',
          SetValue 1, SetLabelText ''Generating thumbnail 2 of 3...'',
          SetValue 2, SetLabelText ''Generating thumbnail 3 of 3...'',
          SetValue 3, Information ''Success'' ''3 thumbnails saved successfully!'']"
    using r unfolding u
    by (simp add: d three_items_fields three_items_path_1 three_items_path_2
        three_items_path_3 item_events_def str_int_1 str_int_2 str_int_3)
  have u1: "[0..<1] = [0]" "[0..<Suc 1] = [0, 1]"
    by (simp_all add: upt_rec)
  have dc: "getExistingDirectory cancelling_gui = ''/out''"
    and nec: "getExistingDirectory cancelling_gui \<noteq> []"
    and wc: "wasCanceled cancelling_gui 1"
    by (simp_all add: cancelling_gui_def)
  have okc: "\<forall>i<1. item_ok cancelling_gui (app three_items)
      (getExistingDirectory cancelling_gui) (start_number (app three_items)) i"
    by (simp add: item_ok_def cancelling_gui_def)
  note instc = save_thumbnails_report[OF pil_sized_example nec, of three_items,
      THEN conjunct2, THEN conjunct2, rule_format, of 1]
  have hc: "1 < nat (batch_count (app three_items))
      \<and> (\<forall>i<1. item_ok cancelling_gui (app three_items)
            (getExistingDirectory cancelling_gui) (start_number (app three_items)) i)
      \<and> wasCanceled cancelling_gui 1"
    using okc wc by (simp add: three_items_fields)
  from instc[OF hc] obtain report where
    c1: "map fst (saved (save_thumbnails (example_pil []) cancelling_gui three_items))
        = map fst (saved three_items)
            @ map (\<lambda>i. thumbnail_path (app three_items) (getExistingDirectory cancelling_gui)
                     (start_number (app three_items) + int i)) [0..<1]"
    and c2: "ui_log (save_thumbnails (example_pil []) cancelling_gui three_items)
        = ui_log three_items
            @ [ProgressDialog ''Generating thumbnails...'' ''Cancel'' 0
                 (batch_count (app three_items))]
            @ concat (map (item_events (batch_count (app three_items))) [0..<1])
            @ report"
    by blast
  have b: "map fst (saved (save_thumbnails (example_pil []) cancelling_gui three_items))
       = [''/out/COURSE ### - Week 1 Overview_Thumbnail.png'']
   \<and> take 3 (ui_log (save_thumbnails (example_pil []) cancelling_gui three_items))
       = [ProgressDialog ''Generating thumbnails...'' ''Cancel'' 0 3,
          SetValue 0, SetLabelText ''Generating thumbnail 1 of 3...'']"
    using c1 c2 unfolding u1
    by (simp add: dc three_items_fields three_items_path_1 item_events_def str_int_1 str_int_3)
  have df: "getExistingDirectory full_disk_gui = ''/out''"
    and nef: "getExistingDirectory full_disk_gui \<noteq> []"
    and nf: "\<not> wasCanceled full_disk_gui 1"
    and ef: "save_raises full_disk_gui ''/out/COURSE ### - Week 2 Overview_Thumbnail.png''
       = Some (PyException ''No space left on device'')"
    by (simp_all add: full_disk_gui_def)
  have okf: "\<forall>i<1. item_ok full_disk_gui (app three_items)
      (getExistingDirectory full_disk_gui) (start_number (app three_items)) i"
    by (simp add: item_ok_def df three_items_fields three_items_path_1)
      (simp add: full_disk_gui_def)
  note instf = save_thumbnails_report[OF pil_sized_example nef, of three_items,
      THEN conjunct2, THEN conjunct1, rule_format, of 1 "PyException ''No space left on device''"]
  have hf: "1 < nat (batch_count (app three_items))
      \<and> (\<forall>i<1. item_ok full_disk_gui (app three_items)
            (getExistingDirectory full_disk_gui) (start_number (app three_items)) i)
      \<and> \<not> wasCanceled full_disk_gui 1
      \<and> save_raises full_disk_gui (thumbnail_path (app three_items)
            (getExistingDirectory full_disk_gui) (start_number (app three_items) + int 1))
          = Some (PyException ''No space left on device'')"
    using okf nf ef by (simp add: three_items_fields df three_items_path_2)
  have e: "map fst (saved (save_thumbnails (example_pil []) full_disk_gui three_items))
       = [''/out/COURSE ### - Week 1 Overview_Thumbnail.png'']
   \<and> ui_log (save_thumbnails (example_pil []) full_disk_gui three_items)
       = [ProgressDialog ''Generating thumbnails...'' ''Cancel'' 0 3,
          SetValue 0, SetLabelText ''Generating thumbnail 1 of 3...'',
          SetValue 1, SetLabelText ''Generating thumbnail 2 of 3...'',
          Critical ''Save Error'' ''Failed to save thumbnails: No space left on device'']"
    using instf[OF hf] unfolding u1
    by (simp add: df three_items_fields three_items_path_1 item_events_def
        str_int_1 str_int_2 str_int_3)
  show ?thesis using a b e d wc ef pil_sized_example by blast
qed

end
